theory Spec2Isabelle
  imports Complex_Main "HOL-Library.Log_Nat"
begin

section \<open>Python floats: IEEE 754 binary64, round to nearest, ties to even\<close>

text \<open>
  A Python \<^verbatim>\<open>float\<close> is a binary64 number. A finite one is modelled by its exact
  rational value, the two infinities and the NaN are constructors of their own; the two
  zeros are one value (the code never divides by zero, prints a zero produced by
  arithmetic, or reads a sign bit, and \<^verbatim>\<open>math.ceil\<close> maps both zeros to \<^verbatim>\<open>0\<close>).
  Every arithmetic operation computes the exact rational result and rounds it with
  \<open>rnd\<close> to the nearest binary64 number: 53 significant bits, the least exponent of
  the last place \<open>-1074\<close> (subnormal numbers), ties to the even significand, and
  overflow to an infinity when the rounded magnitude reaches \<open>2 ^ 1024\<close>.
\<close>

datatype double = Fin rat | PInf | NInf | NaN

definition flog2 :: "rat \<Rightarrow> int" where
  \<comment> \<open>for \<open>0 < q\<close>: the exponent \<open>e\<close> with \<open>2 powi e \<le> q < 2 powi (e + 1)\<close>\<close>
  "flog2 q = (case quotient_of q of (n, d) \<Rightarrow>
     (let k = bitlen n - bitlen d in if 2 powi k \<le> q then k else k - 1))"

definition round_half_even :: "rat \<Rightarrow> int" where
  "round_half_even y = (let f = \<lfloor>y\<rfloor>; r = y - of_int f in
     if r < 1 / 2 then f else if 1 / 2 < r then f + 1 else if even f then f else f + 1)"

definition ulp_exp :: "rat \<Rightarrow> int" where
  \<comment> \<open>the exponent of the unit in the last place of the binade of \<open>q\<close>\<close>
  "ulp_exp q = max (flog2 \<bar>q\<bar> - 52) (- 1074)"

definition rnd :: "rat \<Rightarrow> rat" where
  "rnd q = (if q = 0 then 0
            else of_int (round_half_even (q / 2 powi ulp_exp q)) * 2 powi ulp_exp q)"

definition fin_rnd :: "rat \<Rightarrow> double" where
  \<comment> \<open>the rounded value overflows when its magnitude reaches \<open>2 ^ 1024\<close>\<close>
  "fin_rnd q = (let v = rnd q in
     if v = 0 then Fin 0
     else if 1024 \<le> flog2 \<bar>v\<bar> then (if 0 < v then PInf else NInf)
     else Fin v)"

definition lit :: "rat \<Rightarrow> double" where
  \<comment> \<open>a decimal float literal of the source: the nearest binary64 number\<close>
  "lit q = fin_rnd q"

fun fadd :: "double \<Rightarrow> double \<Rightarrow> double" where
  "fadd (Fin x) (Fin y) = fin_rnd (x + y)"
| "fadd NaN _ = NaN"
| "fadd _ NaN = NaN"
| "fadd PInf NInf = NaN"
| "fadd NInf PInf = NaN"
| "fadd PInf _ = PInf"
| "fadd _ PInf = PInf"
| "fadd NInf _ = NInf"
| "fadd _ NInf = NInf"

fun fsub :: "double \<Rightarrow> double \<Rightarrow> double" where
  "fsub (Fin x) (Fin y) = fin_rnd (x - y)"
| "fsub NaN _ = NaN"
| "fsub _ NaN = NaN"
| "fsub PInf PInf = NaN"
| "fsub NInf NInf = NaN"
| "fsub PInf _ = PInf"
| "fsub _ NInf = PInf"
| "fsub NInf _ = NInf"
| "fsub _ PInf = NInf"

fun fmul :: "double \<Rightarrow> double \<Rightarrow> double" where
  "fmul (Fin x) (Fin y) = fin_rnd (x * y)"
| "fmul NaN _ = NaN"
| "fmul _ NaN = NaN"
| "fmul (Fin x) y = (if x = 0 then NaN else if (0 < x) = (y = PInf) then PInf else NInf)"
| "fmul x (Fin y) = (if y = 0 then NaN else if (0 < y) = (x = PInf) then PInf else NInf)"
| "fmul x y = (if x = y then PInf else NInf)"

fun flt :: "double \<Rightarrow> double \<Rightarrow> bool" where
  "flt (Fin x) (Fin y) = (x < y)"
| "flt NaN _ = False"
| "flt _ NaN = False"
| "flt NInf y = (y \<noteq> NInf)"
| "flt x PInf = (x \<noteq> PInf)"
| "flt _ _ = False"

fun fle :: "double \<Rightarrow> double \<Rightarrow> bool" where
  "fle (Fin x) (Fin y) = (x \<le> y)"
| "fle NaN _ = False"
| "fle _ NaN = False"
| "fle NInf _ = True"
| "fle _ PInf = True"
| "fle _ _ = False"

definition fmin :: "double \<Rightarrow> double \<Rightarrow> double" where
  \<comment> \<open>Python's \<^verbatim>\<open>min(x, y)\<close>: the first argument unless the second is smaller\<close>
  "fmin x y = (if flt y x then y else x)"

section \<open>Errors\<close>

text \<open>
  One constructor for each place where the code raises, with the data the message
  interpolates. \<open>MalformedVector\<close>, \<open>MissingVersion\<close>, \<open>InvalidMetric\<close>,
  \<open>MissingMetrics\<close> and \<open>UnsupportedVersion\<close> are \<^verbatim>\<open>ValueError\<close>s and
  \<open>ProviderUnavailable\<close> is the \<^verbatim>\<open>RuntimeError\<close> of the failed import.
  \<open>InvalidMetric\<close> carries the key of the \<^verbatim>\<open>KeyError\<close> that the message formats.
  The others are exceptions of the built-in operations: \<^verbatim>\<open>math.ceil\<close> of a NaN
  (\<^verbatim>\<open>ValueError\<close>) and of an infinity (\<^verbatim>\<open>OverflowError\<close>), the conversion of a too
  large \<^verbatim>\<open>int\<close> to \<^verbatim>\<open>float\<close>, a division by zero, an exception of \<^verbatim>\<open>pow\<close>, and an
  exception raised by the \<^verbatim>\<open>cvss\<close> package while it scores.
\<close>

datatype error =
    MalformedVector
  | MissingVersion
  | InvalidMetric string
  | MissingMetrics "string list"
  | UnsupportedVersion string
  | ProviderUnavailable string
  | ProviderError string
  | CeilOfNaN
  | CeilOfInf
  | IntTooLarge
  | ZeroDivision
  | PowError

fun math_ceil :: "double \<Rightarrow> error + int" where
  "math_ceil (Fin x) = Inr \<lceil>x\<rceil>"
| "math_ceil NaN = Inl CeilOfNaN"
| "math_ceil _ = Inl CeilOfInf"

definition float_of_int :: "int \<Rightarrow> error + double" where
  "float_of_int n = (case fin_rnd (of_int n) of Fin v \<Rightarrow> Inr (Fin v) | _ \<Rightarrow> Inl IntTooLarge)"

fun fdiv :: "double \<Rightarrow> double \<Rightarrow> error + double" where
  "fdiv x (Fin y) =
     (if y = 0 then Inl ZeroDivision
      else Inr (case x of Fin v \<Rightarrow> fin_rnd (v / y) | NaN \<Rightarrow> NaN
                | PInf \<Rightarrow> (if 0 < y then PInf else NInf)
                | NInf \<Rightarrow> (if 0 < y then NInf else PInf)))"
| "fdiv _ NaN = Inr NaN"
| "fdiv (Fin x) _ = Inr (Fin 0)"
| "fdiv _ _ = Inr NaN"

definition int_truediv :: "int \<Rightarrow> double \<Rightarrow> error + double" where
  \<comment> \<open>\<^verbatim>\<open>n / y\<close> for an \<^verbatim>\<open>int\<close> \<^verbatim>\<open>n\<close> and a \<^verbatim>\<open>float\<close> \<^verbatim>\<open>y\<close>\<close>
  "int_truediv n y = (case float_of_int n of Inl e \<Rightarrow> Inl e | Inr x \<Rightarrow> fdiv x y)"

section \<open>The vector parser\<close>

text \<open>
  Strings are lists of characters with code points below 256. \<open>py_isspace\<close> is
  \<^verbatim>\<open>str.isspace\<close> on these code points, which is what \<^verbatim>\<open>str.strip()\<close> removes.
\<close>

definition py_isspace :: "char \<Rightarrow> bool" where
  "py_isspace ch = (of_char ch \<in> {9, 10, 11, 12, 13, 28, 29, 30, 31, 32, 133, 160 :: nat})"

definition strip :: "string \<Rightarrow> string" where
  "strip s = rev (dropWhile py_isspace (rev (dropWhile py_isspace s)))"

definition startswith :: "string \<Rightarrow> string \<Rightarrow> bool" where
  "startswith s p = (take (length p) s = p)"

fun split :: "char \<Rightarrow> string \<Rightarrow> string list" where
  "split sep [] = [[]]"
| "split sep (x # xs) =
     (if x = sep then [] # split sep xs
      else (case split sep xs of [] \<Rightarrow> [[x]] | p # ps \<Rightarrow> (x # p) # ps))"

definition is_verch :: "char \<Rightarrow> bool" where
  "is_verch ch = (ch \<in> set ''0123456789.'')"

definition match_ver :: "string \<Rightarrow> string option" where
  \<comment> \<open>\<^verbatim>\<open>re.match(r"^CVSS:(?P<ver>[0-9.]+)\/", vector)\<close> and its group \<^verbatim>\<open>ver\<close>\<close>
  "match_ver vector =
     (if startswith vector ''CVSS:'' then
        (let ver = takeWhile is_verch (drop 5 vector)
         in case dropWhile is_verch (drop 5 vector) of
              [] \<Rightarrow> None
            | x # _ \<Rightarrow> if ver \<noteq> [] \<and> x = CHR ''/'' then Some ver else None)
      else None)"

definition add_metric :: "string \<Rightarrow> (string \<rightharpoonup> string) \<Rightarrow> (string \<rightharpoonup> string)" where
  \<comment> \<open>the body of the loop over the segments\<close>
  "add_metric p metrics =
     (if CHR '':'' \<notin> set p then metrics
      else metrics(takeWhile (\<lambda>x. x \<noteq> CHR '':'') p \<mapsto> tl (dropWhile (\<lambda>x. x \<noteq> CHR '':'') p)))"

definition parse_vector :: "string \<Rightarrow> error + string \<times> (string \<rightharpoonup> string)" where
  "parse_vector raw =
     (let vector = strip raw in
      if \<not> startswith vector ''CVSS:'' then Inl MalformedVector
      else (case match_ver vector of
              None \<Rightarrow> Inl MissingVersion
            | Some ver \<Rightarrow> Inr (ver, fold add_metric (tl (split CHR ''/'' vector)) Map.empty)))"

section \<open>CVSS v3.1\<close>

definition V31_AV :: "string \<rightharpoonup> double" where
  "V31_AV = map_of [(''N'', lit (85 / 100)), (''A'', lit (62 / 100)),
                    (''L'', lit (55 / 100)), (''P'', lit (20 / 100))]"

definition V31_AC :: "string \<rightharpoonup> double" where
  "V31_AC = map_of [(''L'', lit (77 / 100)), (''H'', lit (44 / 100))]"

definition V31_PR_U :: "string \<rightharpoonup> double" where
  "V31_PR_U = map_of [(''N'', lit (85 / 100)), (''L'', lit (62 / 100)), (''H'', lit (27 / 100))]"

definition V31_PR_C :: "string \<rightharpoonup> double" where
  "V31_PR_C = map_of [(''N'', lit (85 / 100)), (''L'', lit (68 / 100)), (''H'', lit (50 / 100))]"

definition V31_UI :: "string \<rightharpoonup> double" where
  "V31_UI = map_of [(''N'', lit (85 / 100)), (''R'', lit (62 / 100))]"

definition V31_CIA :: "string \<rightharpoonup> double" where
  "V31_CIA = map_of [(''H'', lit (56 / 100)), (''L'', lit (22 / 100)), (''N'', lit 0)]"

definition roundup_1_dec :: "double \<Rightarrow> error + double" where
  "roundup_1_dec x =
     (case math_ceil (fmul x (lit 10)) of Inl e \<Rightarrow> Inl e | Inr n \<Rightarrow> int_truediv n (lit 10))"

definition getitem :: "(string \<rightharpoonup> 'v) \<Rightarrow> string \<Rightarrow> string + 'v" where
  \<comment> \<open>\<^verbatim>\<open>d[k]\<close>; \<open>Inl k\<close> is \<^verbatim>\<open>KeyError(k)\<close>\<close>
  "getitem d k = (case d k of None \<Rightarrow> Inl k | Some v \<Rightarrow> Inr v)"

definition weight :: "(string \<rightharpoonup> double) \<Rightarrow> (string \<rightharpoonup> string) \<Rightarrow> string \<Rightarrow> string + double" where
  \<comment> \<open>\<^verbatim>\<open>table[metrics[k]]\<close>\<close>
  "weight table metrics k =
     (case getitem metrics k of Inl e \<Rightarrow> Inl e | Inr v \<Rightarrow> getitem table v)"

definition lookup31 ::
  "(string \<rightharpoonup> string) \<Rightarrow>
     string + double \<times> double \<times> string \<times> double \<times> double \<times> double \<times> double \<times> double" where
  \<comment> \<open>the \<^verbatim>\<open>try\<close> block of \<^verbatim>\<open>cvss31_base\<close>, in the order of its statements\<close>
  "lookup31 metrics =
     (case weight V31_AV metrics ''AV'' of Inl e \<Rightarrow> Inl e | Inr av \<Rightarrow>
      case weight V31_AC metrics ''AC'' of Inl e \<Rightarrow> Inl e | Inr ac \<Rightarrow>
      case getitem metrics ''S'' of Inl e \<Rightarrow> Inl e | Inr scope \<Rightarrow>
      case weight (if scope = ''C'' then V31_PR_C else V31_PR_U) metrics ''PR'' of
        Inl e \<Rightarrow> Inl e | Inr pr \<Rightarrow>
      case weight V31_UI metrics ''UI'' of Inl e \<Rightarrow> Inl e | Inr ui \<Rightarrow>
      case weight V31_CIA metrics ''C'' of Inl e \<Rightarrow> Inl e | Inr c \<Rightarrow>
      case weight V31_CIA metrics ''I'' of Inl e \<Rightarrow> Inl e | Inr i \<Rightarrow>
      case weight V31_CIA metrics ''A'' of Inl e \<Rightarrow> Inl e | Inr a \<Rightarrow>
      Inr (av, ac, scope, pr, ui, c, i, a))"

text \<open>
  The local variables \<^verbatim>\<open>iss\<close>, \<^verbatim>\<open>impact\<close>, \<^verbatim>\<open>exploitability\<close> and \<^verbatim>\<open>base\<close>.
  \<^verbatim>\<open>pow\<close> is the C library's and is not correctly rounded in general, so it is a
  parameter \<open>pw\<close> of the model: \<open>pw x n\<close> is what \<^verbatim>\<open>pow(x, n)\<close> returns or raises.
\<close>

definition iss31 :: "double \<Rightarrow> double \<Rightarrow> double \<Rightarrow> double" where
  "iss31 c i a = fsub (Fin 1) (fmul (fmul (fsub (Fin 1) c) (fsub (Fin 1) i)) (fsub (Fin 1) a))"

definition impact31 :: "(double \<Rightarrow> int \<Rightarrow> error + double) \<Rightarrow> string \<Rightarrow> double \<Rightarrow> error + double" where
  "impact31 pw scope iss =
     (if scope = ''U'' then Inr (fmul (lit (642 / 100)) iss)
      else (case pw (fsub iss (lit (2 / 100))) 15 of
              Inl e \<Rightarrow> Inl e
            | Inr p \<Rightarrow> Inr (fsub (fmul (lit (752 / 100)) (fsub iss (lit (29 / 1000))))
                                (fmul (lit (325 / 100)) p))))"

definition exploitability31 :: "double \<Rightarrow> double \<Rightarrow> double \<Rightarrow> double \<Rightarrow> double" where
  "exploitability31 av ac pr ui = fmul (fmul (fmul (fmul (lit (822 / 100)) av) ac) pr) ui"

definition base31 :: "string \<Rightarrow> double \<Rightarrow> double \<Rightarrow> double" where
  "base31 scope impact exploitability =
     (if fle impact (Fin 0) then lit 0
      else if scope = ''U'' then fmin (fadd impact exploitability) (lit 10)
      else fmin (fmul (lit (108 / 100)) (fadd impact exploitability)) (lit 10))"

definition cvss31_base :: "(double \<Rightarrow> int \<Rightarrow> error + double) \<Rightarrow> (string \<rightharpoonup> string) \<Rightarrow> error + double" where
  "cvss31_base pw metrics =
     (case lookup31 metrics of
        Inl k \<Rightarrow> Inl (InvalidMetric k)
      | Inr (av, ac, scope, pr, ui, c, i, a) \<Rightarrow>
          (case impact31 pw scope (iss31 c i a) of
             Inl e \<Rightarrow> Inl e
           | Inr impact \<Rightarrow> roundup_1_dec (base31 scope impact (exploitability31 av ac pr ui))))"

section \<open>CVSS v4.0 and the entry point\<close>

text \<open>
  The import of the \<^verbatim>\<open>cvss\<close> package is the parameter \<open>provider\<close>: \<open>Inl msg\<close> when the
  import raises (with the text of the exception), \<open>Inr f\<close> when it succeeds, where
  \<open>f vector\<close> is \<^verbatim>\<open>CVSS4(vector).base_score\<close> or the exception it raises.
\<close>

definition required40 :: "string list" where
  "required40 = [''AV'', ''AC'', ''AT'', ''PR'', ''UI'', ''VC'', ''VI'', ''VA'', ''SC'', ''SI'', ''SA'']"

fun join :: "string \<Rightarrow> string list \<Rightarrow> string" where
  "join sep [] = []"
| "join sep [x] = x"
| "join sep (x # y # ys) = x @ sep @ join sep (y # ys)"

definition cvss40_base ::
  "string + (string \<Rightarrow> error + double) \<Rightarrow> (string \<rightharpoonup> string) \<Rightarrow> error + double" where
  "cvss40_base provider metrics =
     (case provider of
        Inl msg \<Rightarrow> Inl (ProviderUnavailable msg)
      | Inr CVSS4 \<Rightarrow>
          (let missing = filter (\<lambda>m. metrics m = None) required40 in
           if missing \<noteq> [] then Inl (MissingMetrics missing)
           else CVSS4 (''CVSS:4.0/'' @
                  join ''/'' (map (\<lambda>k. k @ '':'' @ (case metrics k of Some v \<Rightarrow> v | None \<Rightarrow> [])) required40))))"

definition compute_from_vector ::
  "(double \<Rightarrow> int \<Rightarrow> error + double) \<Rightarrow> string + (string \<Rightarrow> error + double) \<Rightarrow> string \<Rightarrow> error + double" where
  "compute_from_vector pw provider vector =
     (case parse_vector vector of
        Inl e \<Rightarrow> Inl e
      | Inr (ver, metrics) \<Rightarrow>
          if startswith ver ''3.1'' then cvss31_base pw metrics
          else if startswith ver ''4'' then cvss40_base provider metrics
          else Inl (UnsupportedVersion ver))"

text \<open>
  A correctly rounded power, the reference that an implementation of \<^verbatim>\<open>pow\<close> is
  measured against.
\<close>

fun pow_cr :: "double \<Rightarrow> int \<Rightarrow> error + double" where
  "pow_cr (Fin x) n =
     (if x = 0 \<and> n < 0 then Inl ZeroDivision
      else (case fin_rnd (x powi n) of Fin v \<Rightarrow> Inr (Fin v) | _ \<Rightarrow> Inl PowError))"
| "pow_cr NaN n = Inr (if n = 0 then Fin 1 else NaN)"
| "pow_cr PInf n = Inr (if n = 0 then Fin 1 else if 0 < n then PInf else Fin 0)"
| "pow_cr NInf n = Inr (if n = 0 then Fin 1 else if n < 0 then Fin 0 else if even n then PInf else NInf)"

section \<open>Definitions used to state the properties\<close>

definition required31 :: "string list" where
  \<comment> \<open>the mandatory metrics named by the comment at the head of \<^verbatim>\<open>cvss31_base\<close>\<close>
  "required31 = [''AV'', ''AC'', ''PR'', ''UI'', ''S'', ''C'', ''I'', ''A'']"

definition order31 :: "string list" where
  \<comment> \<open>the metrics in the order in which the \<^verbatim>\<open>try\<close> block reads them\<close>
  "order31 = [''AV'', ''AC'', ''S'', ''PR'', ''UI'', ''C'', ''I'', ''A'']"

text \<open>
  \<open>table31\<close> is the weight table that the \<^verbatim>\<open>try\<close> block indexes with the value of a
  metric (none for \<open>S\<close>, whose value only selects a table and a formula).
  \<open>culprit metrics k\<close> is the key that the lookup of \<open>k\<close> misses: \<open>k\<close> itself when the
  map has no \<open>k\<close>, the value of \<open>k\<close> when the table does not have it.
\<close>

definition table31 :: "(string \<rightharpoonup> string) \<Rightarrow> string \<Rightarrow> (string \<rightharpoonup> double) option" where
  "table31 metrics k =
     (if k = ''AV'' then Some V31_AV
      else if k = ''AC'' then Some V31_AC
      else if k = ''PR'' then Some (if metrics ''S'' = Some ''C'' then V31_PR_C else V31_PR_U)
      else if k = ''UI'' then Some V31_UI
      else if k = ''C'' \<or> k = ''I'' \<or> k = ''A'' then Some V31_CIA
      else None)"

definition culprit :: "(string \<rightharpoonup> string) \<Rightarrow> string \<Rightarrow> string option" where
  "culprit metrics k =
     (case metrics k of
        None \<Rightarrow> Some k
      | Some v \<Rightarrow>
          (case table31 metrics k of
             None \<Rightarrow> None
           | Some t \<Rightarrow> (case t v of None \<Rightarrow> Some v | Some _ \<Rightarrow> None)))"

definition first_failure :: "(string \<rightharpoonup> string) \<Rightarrow> string option" where
  "first_failure metrics =
     (case List.map_filter (culprit metrics) order31 of [] \<Rightarrow> None | x # _ \<Rightarrow> Some x)"

text \<open>The segments after the version, and those that set the metric \<open>k\<close>.\<close>

definition segments :: "string \<Rightarrow> string list" where
  "segments raw = tl (split CHR ''/'' (strip raw))"

definition seg_key :: "string \<Rightarrow> string" where
  "seg_key p = takeWhile (\<lambda>x. x \<noteq> CHR '':'') p"

definition seg_value :: "string \<Rightarrow> string" where
  "seg_value p = tl (dropWhile (\<lambda>x. x \<noteq> CHR '':'') p)"

definition occurrences :: "string \<Rightarrow> string \<Rightarrow> string list" where
  "occurrences k raw = filter (\<lambda>p. CHR '':'' \<in> set p \<and> seg_key p = k) (segments raw)"

text \<open>
  What the proofs ask of \<^verbatim>\<open>pow\<close>: on a binary64 argument in \<open>[-1, 1]\<close> and the
  exponent 15 it returns a finite number within \<open>10\<^sup>-\<^sup>9\<close> of the exact power. The C
  library's \<^verbatim>\<open>pow\<close> is accurate to about one unit in the last place, which is far
  less. The engine only calls \<^verbatim>\<open>pow\<close> on \<^verbatim>\<open>iss - 0.02\<close>, which lies in this interval.
\<close>

definition pow_accurate :: "(double \<Rightarrow> int \<Rightarrow> error + double) \<Rightarrow> bool" where
  "pow_accurate pw =
     (\<forall>x. rnd x = x \<longrightarrow> \<bar>x\<bar> \<le> 1 \<longrightarrow>
        (\<exists>p. pw (Fin x) 15 = Inr (Fin p) \<and> \<bar>p - x ^ 15\<bar> \<le> 1 / 10 ^ 9))"

text \<open>
  The formula in the words of the specification: the table of \<open>PR\<close> and the branches
  of Impact and of the Base Score are chosen by whether the scope is changed
  (\<open>S = C\<close>) or unchanged (\<open>S = U\<close>).
\<close>

definition spec_pr_table :: "bool \<Rightarrow> (string \<rightharpoonup> double)" where
  "spec_pr_table changed = (if changed then V31_PR_C else V31_PR_U)"

definition spec_iss :: "double \<Rightarrow> double \<Rightarrow> double \<Rightarrow> double" where
  "spec_iss c i a = fsub (Fin 1) (fmul (fmul (fsub (Fin 1) c) (fsub (Fin 1) i)) (fsub (Fin 1) a))"

definition spec_impact :: "(double \<Rightarrow> int \<Rightarrow> error + double) \<Rightarrow> bool \<Rightarrow> double \<Rightarrow> error + double" where
  "spec_impact pw changed iss =
     (if changed then
        (case pw (fsub iss (lit (2 / 100))) 15 of
           Inl e \<Rightarrow> Inl e
         | Inr p \<Rightarrow> Inr (fsub (fmul (lit (752 / 100)) (fsub iss (lit (29 / 1000))))
                             (fmul (lit (325 / 100)) p)))
      else Inr (fmul (lit (642 / 100)) iss))"

definition spec_exploitability :: "double \<Rightarrow> double \<Rightarrow> double \<Rightarrow> double \<Rightarrow> double" where
  "spec_exploitability av ac pr ui = fmul (fmul (fmul (fmul (lit (822 / 100)) av) ac) pr) ui"

definition spec_base :: "bool \<Rightarrow> double \<Rightarrow> double \<Rightarrow> double" where
  "spec_base changed impact exploitability =
     (if changed then fmin (fmul (lit (108 / 100)) (fadd impact exploitability)) (lit 10)
      else fmin (fadd impact exploitability) (lit 10))"

section \<open>Binary exponents\<close>

lemma powi2_pos: "0 < (2::rat) powi k"
  by (simp add: power_int_def)

lemma powi2_mono: "i \<le> j \<Longrightarrow> (2::rat) powi i \<le> 2 powi j"
  by (rule power_int_increasing) simp_all

lemma powi2_less_iff: "(2::rat) powi i < 2 powi j \<longleftrightarrow> i < j"
proof
  assume l: "(2::rat) powi i < 2 powi j"
  show "i < j"
  proof (rule ccontr)
    assume "\<not> i < j"
    then have "(2::rat) powi j \<le> 2 powi i" by (simp add: powi2_mono)
    with l show False by simp
  qed
next
  assume "i < j"
  then show "(2::rat) powi i < 2 powi j" by (rule power_int_strict_increasing) simp
qed

lemma bitlen_rat_bounds:
  assumes "0 < n"
  shows "(2::rat) powi (bitlen n - 1) \<le> of_int n" and "of_int n < (2::rat) powi bitlen n"
proof -
  have b: "1 \<le> bitlen n" using assms by (simp add: bitlen_alt_def)
  from bitlen_bounds [OF assms]
  have l: "2 ^ nat (bitlen n - 1) \<le> n" and u: "n < 2 ^ nat (bitlen n)" by simp_all
  have "(of_int (2 ^ nat (bitlen n - 1)) :: rat) \<le> of_int n" using l by (simp only: of_int_le_iff)
  then show "(2::rat) powi (bitlen n - 1) \<le> of_int n" using b by (simp add: power_int_def)
  have "(of_int n :: rat) < of_int (2 ^ nat (bitlen n))" using u by (simp only: of_int_less_iff)
  then show "of_int n < (2::rat) powi bitlen n" using b by (simp add: power_int_def)
qed

lemma flog2_bounds:
  assumes "0 < q"
  shows "2 powi flog2 q \<le> q" and "q < 2 powi (flog2 q + 1)"
proof -
  obtain n d where nd: "quotient_of q = (n, d)" by (cases "quotient_of q")
  have d: "0 < d" using nd by (rule quotient_of_denom_pos)
  have q: "q = of_int n / of_int d" using nd by (rule quotient_of_div)
  have n: "0 < n" using assms d q by (simp add: zero_less_divide_iff)
  define k where "k = bitlen n - bitlen d"
  have dpos: "(0::rat) < of_int d" using d by simp
  have up: "q < 2 powi (k + 1)"
  proof -
    have "of_int n < (2::rat) powi bitlen n" by (rule bitlen_rat_bounds(2) [OF n])
    also have "\<dots> = 2 powi (k + 1) * 2 powi (bitlen d - 1)"
      by (simp add: k_def flip: power_int_add)
    also have "\<dots> \<le> 2 powi (k + 1) * of_int d"
      using bitlen_rat_bounds(1) [OF d] powi2_pos [of "k + 1"] by (simp add: mult_left_mono)
    finally show ?thesis using dpos by (simp add: q pos_divide_less_eq)
  qed
  have lo: "2 powi (k - 1) \<le> q"
  proof -
    have "(2::rat) powi (k - 1) * of_int d \<le> 2 powi (k - 1) * 2 powi bitlen d"
      using bitlen_rat_bounds(2) [OF d] powi2_pos [of "k - 1"] by (simp add: mult_left_mono)
    also have "\<dots> = 2 powi (bitlen n - 1)"
      by (simp add: k_def flip: power_int_add)
    also have "\<dots> \<le> of_int n" by (rule bitlen_rat_bounds(1) [OF n])
    finally show ?thesis using dpos by (simp add: q pos_le_divide_eq)
  qed
  have f: "flog2 q = (if 2 powi k \<le> q then k else k - 1)"
    by (simp add: flog2_def nd k_def Let_def)
  show "2 powi flog2 q \<le> q" using lo by (simp add: f)
  show "q < 2 powi (flog2 q + 1)" using up by (auto simp: f)
qed

lemma flog2_unique:
  assumes "2 powi e \<le> q" and "q < 2 powi (e + 1)"
  shows "flog2 q = e"
proof -
  have q: "0 < q" using assms(1) powi2_pos [of e] by linarith
  have "(2::rat) powi flog2 q < 2 powi (e + 1)"
    using flog2_bounds(1) [OF q] assms(2) by linarith
  moreover have "(2::rat) powi e < 2 powi (flog2 q + 1)"
    using flog2_bounds(2) [OF q] assms(1) by linarith
  ultimately show ?thesis by (simp add: powi2_less_iff)
qed

lemma flog2_mono:
  assumes "0 < x" and "x \<le> y"
  shows "flog2 x \<le> flog2 y"
proof -
  have "(2::rat) powi flog2 x < 2 powi (flog2 y + 1)"
    using flog2_bounds(1) [OF assms(1)] flog2_bounds(2) [of y] assms by linarith
  then show ?thesis by (simp add: powi2_less_iff)
qed

section \<open>Rounding to the nearest integer, ties to even\<close>

lemma rhe_of_int: "round_half_even (of_int n) = n"
  by (simp add: round_half_even_def)

lemma rhe_bounds: "\<lfloor>y\<rfloor> \<le> round_half_even y" "round_half_even y \<le> \<lfloor>y\<rfloor> + 1"
  by (simp_all add: round_half_even_def Let_def)

lemma rhe_mono:
  assumes "x \<le> y"
  shows "round_half_even x \<le> round_half_even y"
proof (cases "\<lfloor>x\<rfloor> = \<lfloor>y\<rfloor>")
  case True
  have "x - of_int \<lfloor>y\<rfloor> \<le> y - of_int \<lfloor>y\<rfloor>" using assms by simp
  then show ?thesis by (auto simp: round_half_even_def Let_def True)
next
  case False
  have "\<lfloor>x\<rfloor> \<le> \<lfloor>y\<rfloor>" using assms by (rule floor_mono)
  with False have "\<lfloor>x\<rfloor> + 1 \<le> \<lfloor>y\<rfloor>" by simp
  with rhe_bounds(2) [of x] rhe_bounds(1) [of y] show ?thesis by linarith
qed

lemma rhe_err: "\<bar>of_int (round_half_even y) - y\<bar> \<le> 1 / 2"
proof -
  have "of_int \<lfloor>y\<rfloor> \<le> y" "y < of_int \<lfloor>y\<rfloor> + 1" by linarith+
  then show ?thesis by (auto simp: round_half_even_def Let_def)
qed

lemma rhe_neg: "round_half_even (- y) = - round_half_even y"
proof (cases "y = of_int \<lfloor>y\<rfloor>")
  case True
  then obtain n where "y = of_int n" ..
  then have "- y = of_int (- n)" by simp
  then show ?thesis using \<open>y = of_int n\<close> by (simp only: rhe_of_int)
next
  case False
  then have c: "\<lceil>y\<rceil> = \<lfloor>y\<rfloor> + 1"
    by (metis ceiling_altdef of_int_floor_cancel)
  have f: "\<lfloor>- y\<rfloor> = - \<lfloor>y\<rfloor> - 1" using c by (simp add: floor_minus)
  have "of_int \<lfloor>y\<rfloor> \<le> y" "y < of_int \<lfloor>y\<rfloor> + 1" by linarith+
  then show ?thesis by (auto simp: round_half_even_def Let_def f)
qed

section \<open>Rounding to binary64\<close>

lemma flog2_step_up: "2 \<le> q \<Longrightarrow> flog2 q = flog2 (q / 2) + 1"
proof -
  assume a: "2 \<le> q"
  then have h: "0 < q / 2" by simp
  have "2 * 2 powi flog2 (q / 2) \<le> q" using flog2_bounds(1) [OF h] by simp
  moreover have "q < 2 * 2 powi (flog2 (q / 2) + 1)" using flog2_bounds(2) [OF h] by simp
  ultimately show ?thesis
    by (intro flog2_unique) (simp_all add: power_int_add)
qed

lemma flog2_step_down: "0 < q \<Longrightarrow> q < 1 \<Longrightarrow> flog2 q = flog2 (q * 2) - 1"
proof -
  assume a: "0 < q" "q < 1"
  then have h: "0 < q * 2" by simp
  have "2 powi flog2 (q * 2) \<le> q * 2" using flog2_bounds(1) [OF h] by simp
  moreover have "q * 2 < 2 powi (flog2 (q * 2) + 1)" using flog2_bounds(2) [OF h] by simp
  ultimately show ?thesis
    by (intro flog2_unique) (simp_all add: power_int_diff power_int_add)
qed

lemma flog2_base: "1 \<le> q \<Longrightarrow> q < 2 \<Longrightarrow> flog2 q = 0"
  by (rule flog2_unique) simp_all

lemmas flog2_eval = flog2_step_up flog2_step_down flog2_base

lemma floor_rat_numeral: "\<lfloor>numeral a / numeral b :: rat\<rfloor> = numeral a div numeral b"
  by (metis floor_divide_of_int_eq of_int_numeral)

lemma floor_rat_neg_numeral: "\<lfloor>- (numeral a / numeral b) :: rat\<rfloor> = - numeral a div numeral b"
  by (metis divide_minus_left floor_divide_of_int_eq of_int_neg_numeral of_int_numeral)

lemmas rnd_eval = rnd_def ulp_exp_def flog2_eval round_half_even_def Let_def
  floor_rat_numeral floor_rat_neg_numeral


lemma ulp_exp_neg: "ulp_exp (- q) = ulp_exp q"
  by (simp add: ulp_exp_def)

lemma rnd_neg: "rnd (- q) = - rnd q"
  by (simp add: rnd_def ulp_exp_neg rhe_neg)

lemma rnd_nonneg: "0 \<le> q \<Longrightarrow> 0 \<le> rnd q"
proof -
  assume q: "0 \<le> q"
  have "0 \<le> q / 2 powi ulp_exp q" using q powi2_pos [of "ulp_exp q"] by simp
  then have "0 \<le> \<lfloor>q / 2 powi ulp_exp q\<rfloor>" by simp
  then have "0 \<le> round_half_even (q / 2 powi ulp_exp q)"
    using rhe_bounds(1) [of "q / 2 powi ulp_exp q"] by linarith
  then show ?thesis using powi2_pos [of "ulp_exp q"] by (simp add: rnd_def)
qed

lemma rnd_le_grid:
  assumes "q \<le> of_int n * 2 powi ulp_exp q"
  shows "rnd q \<le> of_int n * 2 powi ulp_exp q"
proof (cases "q = 0")
  case True
  then show ?thesis using assms by (simp add: rnd_def)
next
  case False
  have "q / 2 powi ulp_exp q \<le> of_int n"
    using assms powi2_pos [of "ulp_exp q"] by (simp add: pos_divide_le_eq)
  then have "round_half_even (q / 2 powi ulp_exp q) \<le> n"
    using rhe_mono [of "q / 2 powi ulp_exp q" "of_int n"] by (simp add: rhe_of_int)
  then show ?thesis using powi2_pos [of "ulp_exp q"] False by (simp add: rnd_def)
qed

lemma rnd_ge_grid:
  assumes "of_int n * 2 powi ulp_exp q \<le> q"
  shows "of_int n * 2 powi ulp_exp q \<le> rnd q"
proof (cases "q = 0")
  case True
  then show ?thesis using assms by (simp add: rnd_def)
next
  case False
  have "of_int n \<le> q / 2 powi ulp_exp q"
    using assms powi2_pos [of "ulp_exp q"] by (simp add: pos_le_divide_eq)
  then have "n \<le> round_half_even (q / 2 powi ulp_exp q)"
    using rhe_mono [of "of_int n" "q / 2 powi ulp_exp q"] by (simp add: rhe_of_int)
  then show ?thesis using powi2_pos [of "ulp_exp q"] False by (simp add: rnd_def)
qed

lemma powi2_of_int: "0 \<le> k \<Longrightarrow> (2::rat) powi k = of_int (2 ^ nat k)"
  by (simp add: power_int_def)

lemma rnd_mono_pos:
  assumes x: "0 < x" and xy: "x \<le> y"
  shows "rnd x \<le> rnd y"
proof -
  have y: "0 < y" using x xy by simp
  have fl: "flog2 x \<le> flog2 y" using x xy by (rule flog2_mono)
  have ax: "\<bar>x\<bar> = x" and ay: "\<bar>y\<bar> = y" using x y by simp_all
  have u: "ulp_exp x \<le> ulp_exp y" using fl by (simp add: ulp_exp_def ax ay)
  show ?thesis
  proof (cases "ulp_exp x = ulp_exp y")
    case True
    have "x / 2 powi ulp_exp y \<le> y / 2 powi ulp_exp y"
      using xy powi2_pos [of "ulp_exp y"] by (simp add: divide_right_mono)
    then have "round_half_even (x / 2 powi ulp_exp y) \<le> round_half_even (y / 2 powi ulp_exp y)"
      by (rule rhe_mono)
    then show ?thesis using x y powi2_pos [of "ulp_exp y"] by (simp add: rnd_def True)
  next
    case False
    with u have lt: "ulp_exp x < ulp_exp y" by simp
    then have uy: "ulp_exp y = flog2 y - 52" and fx: "flog2 x - 52 < flog2 y - 52"
      by (auto simp: ulp_exp_def ax ay max_def split: if_splits)
    define b where "b = (2::rat) powi flog2 y"
    have xb: "x \<le> b"
    proof -
      have "x < 2 powi (flog2 x + 1)" by (rule flog2_bounds(2) [OF x])
      also have "\<dots> \<le> b" unfolding b_def using fx by (intro powi2_mono) simp
      finally show ?thesis by simp
    qed
    have byy: "b \<le> y" unfolding b_def by (rule flog2_bounds(1) [OF y])
    have kx: "0 \<le> flog2 y - ulp_exp x" using lt uy by simp
    have bx: "b = of_int (2 ^ nat (flog2 y - ulp_exp x)) * 2 powi ulp_exp x"
      unfolding b_def powi2_of_int [OF kx, symmetric] by (simp flip: power_int_add)
    have bl: "b = of_int (2 ^ 52) * 2 powi ulp_exp y"
      unfolding b_def uy by (simp add: power_int_diff)
    have "rnd x \<le> b" using xb unfolding bx by (rule rnd_le_grid)
    moreover have "b \<le> rnd y" using byy unfolding bl by (rule rnd_ge_grid)
    ultimately show ?thesis by simp
  qed
qed

lemma rnd_mono:
  assumes "x \<le> y"
  shows "rnd x \<le> rnd y"
proof -
  consider "0 < x" | "x \<le> 0" "0 \<le> y" | "y < 0" using assms by linarith
  then show ?thesis
  proof cases
    case 1
    then show ?thesis using assms by (rule rnd_mono_pos)
  next
    case 2
    have "rnd x \<le> 0" using rnd_nonneg [of "- x"] 2(1) by (simp add: rnd_neg)
    moreover have "0 \<le> rnd y" using 2(2) by (rule rnd_nonneg)
    ultimately show ?thesis by simp
  next
    case 3
    have "rnd (- y) \<le> rnd (- x)" using 3 assms by (intro rnd_mono_pos) simp_all
    then show ?thesis by (simp add: rnd_neg)
  qed
qed

lemma rnd_err: "\<bar>rnd q - q\<bar> \<le> 2 powi ulp_exp q / 2"
proof (cases "q = 0")
  case True
  then show ?thesis using powi2_pos [of "ulp_exp 0"] by (simp add: rnd_def)
next
  case False
  define p where "p = (2::rat) powi ulp_exp q"
  have p: "0 < p" unfolding p_def by (rule powi2_pos)
  have "rnd q - q = (of_int (round_half_even (q / p)) - q / p) * p"
    using p False by (simp add: rnd_def p_def algebra_simps)
  then have "\<bar>rnd q - q\<bar> = \<bar>of_int (round_half_even (q / p)) - q / p\<bar> * p"
    using p by (simp add: abs_mult)
  also have "\<dots> \<le> 1 / 2 * p"
    using rhe_err [of "q / p"] p by (intro mult_right_mono) simp_all
  finally show ?thesis by (simp add: p_def)
qed

lemmas float_eval = rnd_eval fin_rnd_def lit_def

lemma fin_rnd_Fin:
  assumes "\<bar>rnd q\<bar> < 2 powi 1024"
  shows "fin_rnd q = Fin (rnd q)"
proof (cases "rnd q = 0")
  case True
  then show ?thesis by (simp add: fin_rnd_def)
next
  case False
  then have "0 < \<bar>rnd q\<bar>" by simp
  then have "2 powi flog2 \<bar>rnd q\<bar> \<le> \<bar>rnd q\<bar>" by (rule flog2_bounds(1))
  with assms have "(2::rat) powi flog2 \<bar>rnd q\<bar> < 2 powi 1024" by linarith
  then have "flog2 \<bar>rnd q\<bar> < 1024" by (simp only: powi2_less_iff)
  then show ?thesis using False by (simp add: fin_rnd_def Let_def)
qed

lemma rnd_between:
  assumes "l \<le> q" and "q \<le> u" and "rnd l = l" and "rnd u = u"
  shows "l \<le> rnd q \<and> rnd q \<le> u"
  using rnd_mono [OF assms(1)] rnd_mono [OF assms(2)] assms(3,4) by simp

lemma fin_rnd_between:
  assumes "l \<le> q" and "q \<le> u" and "rnd l = l" and "rnd u = u"
    and "- 1024 \<le> l" and "u \<le> 1024"
  shows "\<exists>v. fin_rnd q = Fin v \<and> l \<le> v \<and> v \<le> u"
proof -
  have b: "l \<le> rnd q \<and> rnd q \<le> u" using assms(1-4) by (rule rnd_between)
  then have "\<bar>rnd q\<bar> \<le> 1024" using assms(5,6) by linarith
  then have "\<bar>rnd q\<bar> < 2 powi 1024" by simp
  then have "fin_rnd q = Fin (rnd q)" by (rule fin_rnd_Fin)
  with b show ?thesis by simp
qed

lemma lit_0: "lit 0 = Fin 0"
  by (simp add: float_eval)

lemma lit_10: "lit 10 = Fin 10"
  by (simp add: float_eval)

lemma ceiling_rat_numeral: "\<lceil>numeral a / numeral b :: rat\<rceil> = - (- numeral a div numeral b)"
  by (simp add: ceiling_def floor_rat_neg_numeral)

lemmas roundup_eval = roundup_1_dec_def int_truediv_def float_of_int_def ceiling_rat_numeral

lemmas table_defs = V31_AV_def V31_AC_def V31_PR_U_def V31_PR_C_def V31_UI_def V31_CIA_def

lemmas lookup_eval = lookup31_def weight_def getitem_def table_defs

lemma roundup_zero: "roundup_1_dec (Fin 0) = Inr (Fin 0)"
  by (simp add: roundup_eval float_eval)

lemma cvss31_base_steps:
  assumes "lookup31 m = Inr (av, ac, s, pr, ui, c, i, a)"
    and "iss31 c i a = x" and "impact31 pw s x = Inr imp"
    and "exploitability31 av ac pr ui = e" and "base31 s imp e = b"
  shows "cvss31_base pw m = roundup_1_dec b"
  using assms by (simp add: cvss31_base_def)

lemmas parse_eval = parse_vector_def strip_def py_isspace_def startswith_def match_ver_def
  is_verch_def add_metric_def

section \<open>Bounds that exclude overflow\<close>

lemma rnd_pow2:
  assumes "- 1074 \<le> e"
  shows "rnd (2 powi e) = 2 powi e"
proof -
  have f: "flog2 (2 powi e) = e"
    by (rule flog2_unique) (simp_all add: powi2_less_iff)
  define u where "u = max (e - 52) (- 1074)"
  have u: "ulp_exp (2 powi e) = u"
    using powi2_pos [of e] by (simp add: ulp_exp_def f u_def)
  have k: "0 \<le> e - u" using assms by (simp add: u_def)
  have "(2::rat) powi e / 2 powi u = 2 powi (e - u)" by (simp add: power_int_diff)
  also have "\<dots> = of_int (2 ^ nat (e - u))" using k by (rule powi2_of_int)
  finally have "round_half_even (2 powi e / 2 powi u) = 2 ^ nat (e - u)"
    by (simp only: rhe_of_int)
  then have "rnd (2 powi e) = of_int (2 ^ nat (e - u)) * 2 powi u"
    by (simp add: rnd_def u)
  also have "\<dots> = 2 powi (e - u) * 2 powi u" using powi2_of_int [OF k] by simp
  also have "\<dots> = 2 powi e" by (simp flip: power_int_add)
  finally show ?thesis .
qed

lemma rnd_abs_le:
  assumes "\<bar>q\<bar> \<le> 2 powi e" and "- 1074 \<le> e"
  shows "\<bar>rnd q\<bar> \<le> 2 powi e"
proof -
  have "rnd q \<le> rnd (2 powi e)" using assms(1) by (intro rnd_mono) simp
  moreover have "rnd (- (2 powi e)) \<le> rnd q" using assms(1) by (intro rnd_mono) simp
  ultimately show ?thesis by (simp add: rnd_neg rnd_pow2 [OF assms(2)])
qed

lemma fin_rnd_le:
  assumes "\<bar>q\<bar> \<le> 2 powi e" and "- 1074 \<le> e" and "e < 1024"
  shows "fin_rnd q = Fin (rnd q)"
proof -
  have "\<bar>rnd q\<bar> \<le> 2 powi e" using assms(1,2) by (rule rnd_abs_le)
  also have "(2::rat) powi e < 2 powi 1024" using assms(3) by (simp only: powi2_less_iff)
  finally show ?thesis by (rule fin_rnd_Fin)
qed

lemma ceiling_abs_le:
  assumes "\<bar>y\<bar> \<le> of_int n"
  shows "\<bar>(of_int \<lceil>y :: rat\<rceil> :: rat)\<bar> \<le> of_int n"
proof -
  have "\<lceil>y\<rceil> \<le> n" using assms by (simp add: ceiling_le_iff)
  moreover have "- n \<le> \<lceil>y\<rceil>"
  proof -
    have "of_int (- n) \<le> y" using assms by simp
    then have "- n \<le> \<lfloor>y\<rfloor>" by (simp only: le_floor_iff)
    also have "\<dots> \<le> \<lceil>y\<rceil>" by (rule floor_le_ceiling)
    finally show ?thesis .
  qed
  ultimately have "\<bar>\<lceil>y\<rceil>\<bar> \<le> n" by simp
  then have "(of_int \<bar>\<lceil>y\<rceil>\<bar> :: rat) \<le> of_int n" by (simp only: of_int_le_iff)
  then show ?thesis by simp
qed

lemma roundup_finite:
  assumes "\<bar>x\<bar> \<le> 2 ^ 1000"
  shows "roundup_1_dec (Fin x) = Inr (Fin (rnd (rnd (of_int \<lceil>rnd (x * 10)\<rceil>) / 10)))"
proof -
  define b :: rat where "b = 2 powi 1004"
  have bi: "b = of_int (2 ^ 1004)" by (simp add: b_def)
  have x10: "\<bar>x * 10\<bar> \<le> b"
  proof -
    have "\<bar>x * 10\<bar> = \<bar>x\<bar> * 10" by (simp add: abs_mult)
    also have "\<dots> \<le> 2 ^ 1000 * 16" using assms by linarith
    also have "\<dots> = b" by (simp add: b_def)
    finally show ?thesis .
  qed
  define y where "y = rnd (x * 10)"
  have y: "\<bar>y\<bar> \<le> b" unfolding y_def b_def using x10 [unfolded b_def] by (rule rnd_abs_le) simp
  have "fin_rnd (x * 10) = Fin (rnd (x * 10))"
    using x10 [unfolded b_def] by (rule fin_rnd_le) simp_all
  then have m: "fmul (Fin x) (lit 10) = Fin y"
    by (simp add: lit_10 y_def)
  have n: "\<bar>(of_int \<lceil>y\<rceil> :: rat)\<bar> \<le> b"
    using y unfolding bi by (rule ceiling_abs_le)
  define z where "z = rnd (of_int \<lceil>y\<rceil>)"
  have z: "\<bar>z\<bar> \<le> b" unfolding z_def b_def using n [unfolded b_def] by (rule rnd_abs_le) simp
  have "fin_rnd (of_int \<lceil>y\<rceil>) = Fin (rnd (of_int \<lceil>y\<rceil>))"
    using n [unfolded b_def] by (rule fin_rnd_le) simp_all
  then have c: "float_of_int \<lceil>y\<rceil> = Inr (Fin z)"
    by (simp add: z_def float_of_int_def)
  have "\<bar>z / 10\<bar> \<le> \<bar>z\<bar>" by simp
  with z have "\<bar>z / 10\<bar> \<le> 2 powi 1004" unfolding b_def by linarith
  then have d: "fin_rnd (z / 10) = Fin (rnd (z / 10))" by (rule fin_rnd_le) simp_all
  have r1: "roundup_1_dec (Fin x) = int_truediv \<lceil>y\<rceil> (lit 10)"
    by (simp only: roundup_1_dec_def m math_ceil.simps sum.case)
  have r2: "int_truediv \<lceil>y\<rceil> (lit 10) = fdiv (Fin z) (Fin 10)"
    by (simp only: int_truediv_def c sum.case lit_10)
  have r3: "fdiv (Fin z) (Fin 10) = Inr (Fin (rnd (z / 10)))"
    by (simp add: d)
  have "roundup_1_dec (Fin x) = Inr (Fin (rnd (z / 10)))"
    by (simp only: r1 r2 r3)
  then show ?thesis by (simp only: z_def y_def)
qed

section \<open>The reference power is accurate\<close>

lemma pow_cr_accurate: "pow_accurate pow_cr"
  unfolding pow_accurate_def
proof (intro allI impI)
  fix x :: rat
  assume "rnd x = x" and x: "\<bar>x\<bar> \<le> 1"
  define q where "q = x ^ 15"
  have q: "\<bar>q\<bar> \<le> 1" unfolding q_def using x by (simp add: power_abs power_le_one)
  then have q0: "\<bar>q\<bar> \<le> 2 powi 0" by simp
  have f: "fin_rnd q = Fin (rnd q)" using q0 by (rule fin_rnd_le) simp_all
  have e: "\<bar>rnd q - q\<bar> \<le> 1 / 10 ^ 9"
  proof (cases "q = 0")
    case True
    then show ?thesis by (simp add: rnd_def)
  next
    case False
    then have p: "0 < \<bar>q\<bar>" by simp
    have "2 powi flog2 \<bar>q\<bar> \<le> \<bar>q\<bar>" using p by (rule flog2_bounds(1))
    with q have "(2::rat) powi flog2 \<bar>q\<bar> < 2 powi 1" by simp
    then have "flog2 \<bar>q\<bar> < 1" by (simp only: powi2_less_iff)
    then have "ulp_exp q \<le> - 52" by (simp add: ulp_exp_def)
    then have "(2::rat) powi ulp_exp q \<le> 2 powi (- 52)" by (rule powi2_mono)
    with rnd_err [of q] have "\<bar>rnd q - q\<bar> \<le> 2 powi (- 52) / 2" by linarith
    also have "\<dots> \<le> 1 / 10 ^ 9" by (simp add: power_int_minus)
    finally show ?thesis .
  qed
  have "pow_cr (Fin x) 15 = Inr (Fin (rnd q))" by (simp add: q_def f [unfolded q_def])
  with e show "\<exists>p. pow_cr (Fin x) 15 = Inr (Fin p) \<and> \<bar>p - x ^ 15\<bar> \<le> 1 / 10 ^ 9"
    unfolding q_def by blast
qed

section \<open>Impact of a changed scope, within bounds\<close>

lemma pow_call:
  assumes "pow_accurate pw" and "rnd x = x" and "\<bar>x\<bar> \<le> 1" and "\<bar>x ^ 15\<bar> \<le> 1 / 2 ^ 31"
  shows "\<exists>p. pw (Fin x) 15 = Inr (Fin p) \<and> \<bar>p\<bar> \<le> 1 / 2 ^ 29"
proof -
  obtain p where p: "pw (Fin x) 15 = Inr (Fin p)" and e: "\<bar>p - x ^ 15\<bar> \<le> 1 / 10 ^ 9"
    using assms(1-3) unfolding pow_accurate_def by blast
  have "\<bar>p\<bar> \<le> \<bar>p - x ^ 15\<bar> + \<bar>x ^ 15\<bar>" by simp
  also have "\<dots> \<le> 1 / 10 ^ 9 + 1 / 2 ^ 31" using e assms(4) by linarith
  also have "\<dots> \<le> 1 / 2 ^ 29" by simp
  finally show ?thesis using p by blast
qed

lemma lit_325: "lit (325 / 100) = Fin (13 / 4)"
  by (simp add: float_eval)

lemma subtrahend:
  assumes "\<bar>p\<bar> \<le> 1 / 2 ^ 29"
  shows "\<exists>t. fmul (lit (325 / 100)) (Fin p) = Fin t \<and> - (1 / 2 ^ 27) \<le> t \<and> t \<le> 1 / 2 ^ 27"
proof -
  have "- (1 / 2 ^ 27) \<le> 13 / 4 * p" and "13 / 4 * p \<le> 1 / 2 ^ 27"
    using assms by (simp_all add: abs_le_iff)
  then have "\<exists>t. fin_rnd (13 / 4 * p) = Fin t \<and> - (1 / 2 ^ 27) \<le> t \<and> t \<le> 1 / 2 ^ 27"
    by (rule fin_rnd_between) (simp_all add: rnd_eval)
  then show ?thesis using lit_325 by simp
qed

lemma impact_changed:
  assumes pw: "pow_accurate pw" and s: "s \<noteq> ''U''"
    and x: "fsub iss (lit (2 / 100)) = Fin x" "rnd x = x" "\<bar>x\<bar> \<le> 1" "\<bar>x ^ 15\<bar> \<le> 1 / 2 ^ 31"
    and a: "fmul (lit (752 / 100)) (fsub iss (lit (29 / 1000))) = Fin a"
    and b: "l \<le> a - 1 / 2 ^ 27" "a + 1 / 2 ^ 27 \<le> u" "rnd l = l" "rnd u = u"
      "- 1024 \<le> l" "u \<le> 1024"
  shows "\<exists>v. impact31 pw s iss = Inr (Fin v) \<and> l \<le> v \<and> v \<le> u"
proof -
  obtain p where p: "pw (Fin x) 15 = Inr (Fin p)" "\<bar>p\<bar> \<le> 1 / 2 ^ 29"
    using pow_call [OF pw x(2-4)] by blast
  obtain t where t: "fmul (lit (325 / 100)) (Fin p) = Fin t" "- (1 / 2 ^ 27) \<le> t" "t \<le> 1 / 2 ^ 27"
    using subtrahend [OF p(2)] by blast
  have "l \<le> a - t" and "a - t \<le> u" using b(1,2) t(2,3) by linarith+
  then obtain v where v: "fin_rnd (a - t) = Fin v" "l \<le> v" "v \<le> u"
    using fin_rnd_between [OF _ _ b(3-6)] by blast
  have "impact31 pw s iss = Inr (Fin v)"
    using s x(1) p(1) a t(1) v(1) by (simp add: impact31_def)
  with v show ?thesis by blast
qed

lemma iss_none: "iss31 (lit 0) (lit 0) (lit 0) = Fin 0"
  by (simp add: iss31_def float_eval)

lemma impact_none_unchanged: "impact31 pw ''U'' (Fin 0) = Inr (Fin 0)"
  by (simp add: impact31_def float_eval)

lemma impact_none_changed:
  assumes "pow_accurate pw" and "s \<noteq> ''U''"
  shows "\<exists>v. impact31 pw s (Fin 0) = Inr (Fin v) \<and> v \<le> 0"
proof -
  have "\<exists>v. impact31 pw s (Fin 0) = Inr (Fin v) \<and> - 1 \<le> v \<and> v \<le> - (228673 / 1048576)"
    using assms
  proof (rule impact_changed)
    show "fsub (Fin 0) (lit (2 / 100)) = Fin (- (5764607523034235 / 288230376151711744))"
      by (simp add: float_eval)
    show "rnd (- (5764607523034235 / 288230376151711744)) = - (5764607523034235 / 288230376151711744)"
      by (simp add: rnd_eval)
    show "fmul (lit (752 / 100)) (fsub (Fin 0) (lit (29 / 1000))) = Fin (- (3928580026947831 / 18014398509481984))"
      by (simp add: float_eval)
    show "rnd (- 1) = - 1" "rnd (- (228673 / 1048576)) = - (228673 / 1048576)"
      by (simp_all add: rnd_eval)
  qed (simp_all add: power_divide)
  then obtain v where "impact31 pw s (Fin 0) = Inr (Fin v)" "v \<le> - (228673 / 1048576)" by blast
  moreover from this have "v \<le> 0" by linarith
  ultimately show ?thesis by blast
qed

section \<open>Evaluated scores\<close>

lemma lookup31_Inr:
  assumes "lookup31 m = Inr (av, ac, s, pr, ui, c, i, a)"
  shows "weight V31_AV m ''AV'' = Inr av" and "weight V31_AC m ''AC'' = Inr ac"
    and "getitem m ''S'' = Inr s"
    and "weight (if s = ''C'' then V31_PR_C else V31_PR_U) m ''PR'' = Inr pr"
    and "weight V31_UI m ''UI'' = Inr ui" and "weight V31_CIA m ''C'' = Inr c"
    and "weight V31_CIA m ''I'' = Inr i" and "weight V31_CIA m ''A'' = Inr a"
  using assms by (auto simp: lookup31_def split: sum.splits)

lemma weight_Some: "m k = Some v \<Longrightarrow> t v = Some w \<Longrightarrow> weight t m k = Inr w"
  by (simp add: weight_def getitem_def)

lemma lit_108: "lit (108 / 100) = Fin (607985949695017 / 562949953421312)"
  by (simp add: float_eval)

lemma int_truediv_58: "int_truediv 58 (lit 10) = Inr (lit (58 / 10))"
  by (simp add: int_truediv_def float_of_int_def float_eval)

lemma score_changed_example:
  assumes "pow_accurate pw"
  shows "cvss31_base pw [''AV'' \<mapsto> ''N'', ''AC'' \<mapsto> ''L'', ''PR'' \<mapsto> ''N'', ''UI'' \<mapsto> ''N'',
           ''S'' \<mapsto> ''C'', ''C'' \<mapsto> ''L'', ''I'' \<mapsto> ''N'', ''A'' \<mapsto> ''N''] = Inr (lit (58 / 10))"
proof -
  let ?m = "[''AV'' \<mapsto> ''N'', ''AC'' \<mapsto> ''L'', ''PR'' \<mapsto> ''N'', ''UI'' \<mapsto> ''N'',
           ''S'' \<mapsto> ''C'', ''C'' \<mapsto> ''L'', ''I'' \<mapsto> ''N'', ''A'' \<mapsto> ''N'']"
  let ?e = "4376421098265795 / 1125899906842624 :: rat"
  let ?c = "607985949695017 / 562949953421312 :: rat"
  have lk: "lookup31 ?m = Inr (lit (85 / 100), lit (77 / 100), ''C'', lit (85 / 100), lit (85 / 100),
                               lit (22 / 100), lit 0, lit 0)"
    by (simp add: lookup_eval)
  have iss: "iss31 (lit (22 / 100)) (lit 0) (lit 0) = Fin (990791918021509 / 4503599627370496)"
    by (simp add: iss31_def float_eval)
  have ex: "exploitability31 (lit (85 / 100)) (lit (77 / 100)) (lit (85 / 100)) (lit (85 / 100)) = Fin ?e"
    by (simp add: exploitability31_def float_eval)
  have "\<exists>v. impact31 pw ''C'' (Fin (990791918021509 / 4503599627370496)) = Inr (Fin v)
          \<and> 753045 / 524288 \<le> v \<and> v \<le> 1506091 / 1048576"
    using assms
  proof (rule impact_changed)
    show "fsub (Fin (990791918021509 / 4503599627370496)) (lit (2 / 100))
            = Fin (7205759403792793 / 36028797018963968)"
      by (simp add: float_eval)
    show "rnd (7205759403792793 / 36028797018963968) = 7205759403792793 / 36028797018963968"
      by (simp add: rnd_eval)
    show "fmul (lit (752 / 100)) (fsub (Fin (990791918021509 / 4503599627370496)) (lit (29 / 1000)))
            = Fin (3234305108392395 / 2251799813685248)"
      by (simp add: float_eval)
    show "rnd (753045 / 524288) = 753045 / 524288" "rnd (1506091 / 1048576) = 1506091 / 1048576"
      by (simp_all add: rnd_eval)
  qed (simp_all add: power_divide)
  then obtain v where v: "impact31 pw ''C'' (Fin (990791918021509 / 4503599627370496)) = Inr (Fin v)"
    "753045 / 524288 \<le> v" "v \<le> 1506091 / 1048576" by blast
  have "5581949 / 1048576 \<le> v + ?e" and "v + ?e \<le> 5581951 / 1048576"
    using v(2,3) by linarith+
  then have "\<exists>t. fin_rnd (v + ?e) = Fin t \<and> 5581949 / 1048576 \<le> t \<and> t \<le> 5581951 / 1048576"
    by (rule fin_rnd_between) (simp_all add: rnd_eval)
  then obtain t where t: "fin_rnd (v + ?e) = Fin t" "5581949 / 1048576 \<le> t" "t \<le> 5581951 / 1048576"
    by blast
  have "753563 / 131072 \<le> ?c * t" and "?c * t \<le> 1507127 / 262144"
    using t(2,3) by linarith+
  then have "\<exists>b. fin_rnd (?c * t) = Fin b \<and> 753563 / 131072 \<le> b \<and> b \<le> 1507127 / 262144"
    by (rule fin_rnd_between) (simp_all add: rnd_eval)
  then obtain b where b: "fin_rnd (?c * t) = Fin b" "753563 / 131072 \<le> b" "b \<le> 1507127 / 262144"
    by blast
  have base: "base31 ''C'' (Fin v) (Fin ?e) = Fin b"
    using v(2) b t(1) lit_108 lit_10 by (simp add: base31_def fmin_def)
  have "3767815 / 65536 \<le> b * 10" and "b * 10 \<le> 7535635 / 131072"
    using b(2,3) by linarith+
  then have "\<exists>y. fin_rnd (b * 10) = Fin y \<and> 3767815 / 65536 \<le> y \<and> y \<le> 7535635 / 131072"
    by (rule fin_rnd_between) (simp_all add: rnd_eval)
  then obtain y where y: "fin_rnd (b * 10) = Fin y" "3767815 / 65536 \<le> y" "y \<le> 7535635 / 131072"
    by blast
  have "\<lceil>y\<rceil> = 58" using y(2,3) by (simp add: ceiling_eq_iff)
  then have "roundup_1_dec (Fin b) = Inr (lit (58 / 10))"
    using y(1) lit_10 int_truediv_58 by (simp add: roundup_1_dec_def)
  moreover have "cvss31_base pw ?m = roundup_1_dec (Fin b)"
    using lk iss v(1) ex base by (rule cvss31_base_steps)
  ultimately show ?thesis by simp
qed

lemma parse_changed:
  "parse_vector ''CVSS:3.1/AV:N/AC:L/PR:N/UI:N/S:C/C:L/I:N/A:N'' =
     Inr (''3.1'', [''AV'' \<mapsto> ''N'', ''AC'' \<mapsto> ''L'', ''PR'' \<mapsto> ''N'', ''UI'' \<mapsto> ''N'',
                    ''S'' \<mapsto> ''C'', ''C'' \<mapsto> ''L'', ''I'' \<mapsto> ''N'', ''A'' \<mapsto> ''N''])"
  by (simp add: parse_eval)

lemma compute_changed_example:
  assumes "pow_accurate pw"
  shows "compute_from_vector pw provider ''CVSS:3.1/AV:N/AC:L/PR:N/UI:N/S:C/C:L/I:N/A:N''
           = Inr (lit (58 / 10))"
  using score_changed_example [OF assms]
  by (simp add: compute_from_vector_def parse_changed startswith_def)

lemma lit_58_53: "lit (58 / 10) \<noteq> lit (53 / 10)"
  by (simp add: float_eval)

lemma roundup_7341: "roundup_1_dec (lit (7341 / 1000)) = Inr (lit (74 / 10))"
  by (simp add: roundup_eval float_eval)

lemma roundup_73: "roundup_1_dec (lit (73 / 10)) = Inr (lit (73 / 10))"
  by (simp add: roundup_eval float_eval)

lemma score_high_example:
  "cvss31_base pw [''AV'' \<mapsto> ''N'', ''AC'' \<mapsto> ''L'', ''PR'' \<mapsto> ''N'', ''UI'' \<mapsto> ''N'',
           ''S'' \<mapsto> ''U'', ''C'' \<mapsto> ''H'', ''I'' \<mapsto> ''H'', ''A'' \<mapsto> ''H''] = Inr (lit (98 / 10))"
proof -
  let ?m = "[''AV'' \<mapsto> ''N'', ''AC'' \<mapsto> ''L'', ''PR'' \<mapsto> ''N'', ''UI'' \<mapsto> ''N'',
           ''S'' \<mapsto> ''U'', ''C'' \<mapsto> ''H'', ''I'' \<mapsto> ''H'', ''A'' \<mapsto> ''H'']"
  have lk: "lookup31 ?m = Inr (lit (85 / 100), lit (77 / 100), ''U'', lit (85 / 100), lit (85 / 100),
                               lit (56 / 100), lit (56 / 100), lit (56 / 100))"
    by (simp add: lookup_eval)
  have iss: "iss31 (lit (56 / 100)) (lit (56 / 100)) (lit (56 / 100))
      = Fin (514995624589071 / 562949953421312)"
    by (simp add: iss31_def float_eval)
  have im: "impact31 pw ''U'' (Fin (514995624589071 / 562949953421312))
      = Inr (Fin (826567977465459 / 140737488355328))"
    by (simp add: impact31_def float_eval)
  have ex: "exploitability31 (lit (85 / 100)) (lit (77 / 100)) (lit (85 / 100)) (lit (85 / 100))
      = Fin (4376421098265795 / 1125899906842624)"
    by (simp add: exploitability31_def float_eval)
  have ba: "base31 ''U'' (Fin (826567977465459 / 140737488355328))
      (Fin (4376421098265795 / 1125899906842624)) = Fin (2747241229497367 / 281474976710656)"
    by (simp add: base31_def fmin_def float_eval)
  have "roundup_1_dec (Fin (2747241229497367 / 281474976710656)) = Inr (lit (98 / 10))"
    by (simp add: roundup_eval float_eval)
  then show ?thesis using cvss31_base_steps [OF lk iss im ex ba] by simp
qed

section \<open>The entry point\<close>

text \<open>
  C8. Once the vector has been parsed, \<open>compute_from_vector\<close> routes on the prefix of
  the version: a version that starts with \<open>3.1\<close> is scored by \<open>cvss31_base\<close>, any
  other version that starts with \<open>4\<close> by \<open>cvss40_base\<close>, and every other version
  fails with \<open>UnsupportedVersion\<close>; in particular every input with version \<open>2.0\<close>.
\<close>

theorem compute_from_vector_routes:
  "parse_vector vector = Inr (ver, metrics) \<Longrightarrow>
     compute_from_vector pw provider vector =
       (if startswith ver ''3.1'' then cvss31_base pw metrics
        else if startswith ver ''4'' then cvss40_base provider metrics
        else Inl (UnsupportedVersion ver))
     \<and> (ver = ''2.0'' \<longrightarrow>
          compute_from_vector pw provider vector = Inl (UnsupportedVersion ''2.0''))"
  by (simp add: compute_from_vector_def startswith_def)

lemma parse_v2:
  "parse_vector ''CVSS:2.0/AV:N/AC:L'' = Inr (''2.0'', [''AV'' \<mapsto> ''N'', ''AC'' \<mapsto> ''L''])"
  by (simp add: parse_eval)

theorem compute_from_vector_routes_witness:
  "parse_vector ''CVSS:2.0/AV:N/AC:L'' = Inr (''2.0'', [''AV'' \<mapsto> ''N'', ''AC'' \<mapsto> ''L''])
   \<and> compute_from_vector pow_cr (Inl ''ModuleNotFoundError'') ''CVSS:2.0/AV:N/AC:L''
       = Inl (UnsupportedVersion ''2.0'')"
  using compute_from_vector_routes [OF parse_v2, of pow_cr "Inl ''ModuleNotFoundError''"] parse_v2
  by (simp add: startswith_def)

section \<open>The parser\<close>

text \<open>
  C9. When the stripped input is \<open>CVSS:\<close>, then a run of characters of \<open>[0-9.]\<close>,
  then a rest that is empty or starts with a character that is neither of \<open>[0-9.]\<close>
  nor \<open>/\<close>, \<open>parse_vector\<close> fails with \<open>MissingVersion\<close>, also when the run is not
  empty: the version has to be followed by \<open>/\<close>.
\<close>

theorem parse_vector_unterminated_version:
  "strip raw = ''CVSS:'' @ run @ rest \<Longrightarrow> \<forall>x \<in> set run. is_verch x \<Longrightarrow>
   (case rest of [] \<Rightarrow> True | x # _ \<Rightarrow> \<not> is_verch x \<and> x \<noteq> CHR ''/'') \<Longrightarrow>
   parse_vector raw = Inl MissingVersion"
proof -
  assume s: "strip raw = ''CVSS:'' @ run @ rest" and r: "\<forall>x \<in> set run. is_verch x"
    and t: "case rest of [] \<Rightarrow> True | x # _ \<Rightarrow> \<not> is_verch x \<and> x \<noteq> CHR ''/''"
  have "match_ver (strip raw) = None"
  proof (cases rest)
    case Nil
    have d: "dropWhile is_verch run = []" using r by simp
    show ?thesis by (simp add: match_ver_def startswith_def s Nil d)
  next
    case (Cons x xs)
    have d: "dropWhile is_verch (run @ x # xs) = x # xs"
      using r t Cons by (simp add: dropWhile_append3)
    show ?thesis using t Cons by (simp add: match_ver_def startswith_def s d)
  qed
  then show ?thesis
    by (simp add: parse_vector_def startswith_def s)
qed

theorem parse_vector_unterminated_version_witness:
  "strip ''CVSS:3.1'' = ''CVSS:'' @ ''3.1'' @ [] \<and> list_all is_verch ''3.1''
   \<and> parse_vector ''CVSS:3.1'' = Inl MissingVersion"
proof -
  have a: "strip ''CVSS:3.1'' = ''CVSS:'' @ ''3.1'' @ []" by (simp add: strip_def py_isspace_def)
  have b: "\<forall>x \<in> set ''3.1''. is_verch x" by (simp add: is_verch_def)
  show ?thesis using parse_vector_unterminated_version [OF a b] a b by (simp add: list_all_iff)
qed

section \<open>The v3.1 engine reads the eight mandatory metrics only\<close>

lemma lookup31_cong:
  assumes "\<forall>k \<in> set required31. m1 k = m2 k"
  shows "lookup31 m1 = lookup31 m2"
proof -
  have g: "getitem m1 k = getitem m2 k" if "k \<in> set required31" for k
    using that assms by (simp add: getitem_def)
  then have w: "weight t m1 k = weight t m2 k" if "k \<in> set required31" for k t
    using that by (simp add: weight_def)
  show ?thesis
    unfolding lookup31_def by (simp add: g w required31_def cong: sum.case_cong)
qed

text \<open>
  C10. Two metric maps that agree on \<open>AV, AC, PR, UI, S, C, I, A\<close> get the same result
  from \<open>cvss31_base\<close>, an error or a score. So a map gets the result of its restriction
  to these eight keys: further keys are neither an error nor an influence on the score.
\<close>

theorem cvss31_base_required_only:
  "\<forall>k \<in> set required31. m1 k = m2 k \<Longrightarrow>
     cvss31_base pw m1 = cvss31_base pw m2
     \<and> cvss31_base pw (m1 |` set required31) = cvss31_base pw m1"
proof -
  assume a: "\<forall>k \<in> set required31. m1 k = m2 k"
  have "lookup31 m1 = lookup31 m2" using a by (rule lookup31_cong)
  moreover have "lookup31 (m1 |` set required31) = lookup31 m1"
    by (rule lookup31_cong) simp
  ultimately show ?thesis by (simp add: cvss31_base_def)
qed

theorem cvss31_base_required_only_witness:
  "list_all (\<lambda>k. [''AV'' \<mapsto> ''N'', ''AC'' \<mapsto> ''L'', ''PR'' \<mapsto> ''N'', ''UI'' \<mapsto> ''N'', ''S'' \<mapsto> ''U'',
                   ''C'' \<mapsto> ''H'', ''I'' \<mapsto> ''H'', ''A'' \<mapsto> ''H'', ''E'' \<mapsto> ''F'', ''RL'' \<mapsto> ''O''] k
                = [''AV'' \<mapsto> ''N'', ''AC'' \<mapsto> ''L'', ''PR'' \<mapsto> ''N'', ''UI'' \<mapsto> ''N'', ''S'' \<mapsto> ''U'',
                   ''C'' \<mapsto> ''H'', ''I'' \<mapsto> ''H'', ''A'' \<mapsto> ''H''] k) required31
   \<and> cvss31_base pow_cr [''AV'' \<mapsto> ''N'', ''AC'' \<mapsto> ''L'', ''PR'' \<mapsto> ''N'', ''UI'' \<mapsto> ''N'', ''S'' \<mapsto> ''U'',
                   ''C'' \<mapsto> ''H'', ''I'' \<mapsto> ''H'', ''A'' \<mapsto> ''H'', ''E'' \<mapsto> ''F'', ''RL'' \<mapsto> ''O'']
       = cvss31_base pow_cr [''AV'' \<mapsto> ''N'', ''AC'' \<mapsto> ''L'', ''PR'' \<mapsto> ''N'', ''UI'' \<mapsto> ''N'', ''S'' \<mapsto> ''U'',
                   ''C'' \<mapsto> ''H'', ''I'' \<mapsto> ''H'', ''A'' \<mapsto> ''H'']
   \<and> cvss31_base pow_cr [''AV'' \<mapsto> ''N'', ''AC'' \<mapsto> ''L'', ''PR'' \<mapsto> ''N'', ''UI'' \<mapsto> ''N'', ''S'' \<mapsto> ''U'',
                   ''C'' \<mapsto> ''H'', ''I'' \<mapsto> ''H'', ''A'' \<mapsto> ''H'', ''E'' \<mapsto> ''F'', ''RL'' \<mapsto> ''O'']
       = Inr (lit (98 / 10))"
proof -
  let ?a = "[''AV'' \<mapsto> ''N'', ''AC'' \<mapsto> ''L'', ''PR'' \<mapsto> ''N'', ''UI'' \<mapsto> ''N'', ''S'' \<mapsto> ''U'',
             ''C'' \<mapsto> ''H'', ''I'' \<mapsto> ''H'', ''A'' \<mapsto> ''H'', ''E'' \<mapsto> ''F'', ''RL'' \<mapsto> ''O'']"
  let ?b = "[''AV'' \<mapsto> ''N'', ''AC'' \<mapsto> ''L'', ''PR'' \<mapsto> ''N'', ''UI'' \<mapsto> ''N'', ''S'' \<mapsto> ''U'',
             ''C'' \<mapsto> ''H'', ''I'' \<mapsto> ''H'', ''A'' \<mapsto> ''H'']"
  have h: "\<forall>k \<in> set required31. ?a k = ?b k" by (simp add: required31_def)
  then have l: "list_all (\<lambda>k. ?a k = ?b k) required31" by (simp only: list_all_iff)
  have e: "cvss31_base pow_cr ?a = cvss31_base pow_cr ?b"
    using cvss31_base_required_only [OF h, of pow_cr] by blast
  have s: "cvss31_base pow_cr ?a = Inr (lit (98 / 10))"
    using e score_high_example [of pow_cr] by simp
  show ?thesis using l e s by (intro conjI)
qed

section \<open>Last occurrence of a metric\<close>

lemma fold_add_metric:
  "fold add_metric ps m k =
     (let qs = filter (\<lambda>p. CHR '':'' \<in> set p \<and> seg_key p = k) ps
      in if qs = [] then m k else Some (seg_value (last qs)))"
  by (induction ps rule: rev_induct) (auto simp: add_metric_def seg_key_def seg_value_def Let_def)

lemma parse_dup:
  "parse_vector ''CVSS:3.1/AV:N/AV:A/AC:L/PR:N/UI:N/S:U/C:N/I:N/A:N'' =
     Inr (''3.1'', [''AV'' \<mapsto> ''A'', ''AC'' \<mapsto> ''L'', ''PR'' \<mapsto> ''N'', ''UI'' \<mapsto> ''N'', ''S'' \<mapsto> ''U'',
                    ''C'' \<mapsto> ''N'', ''I'' \<mapsto> ''N'', ''A'' \<mapsto> ''N''])"
  by (simp add: parse_eval)

lemma parse_dup_physical:
  "parse_vector ''CVSS:3.1/AV:N/AV:P/AC:L/PR:N/UI:N/S:U/C:H/I:H/A:H'' =
     Inr (''3.1'', [''AV'' \<mapsto> ''P'', ''AC'' \<mapsto> ''L'', ''PR'' \<mapsto> ''N'', ''UI'' \<mapsto> ''N'', ''S'' \<mapsto> ''U'',
                    ''C'' \<mapsto> ''H'', ''I'' \<mapsto> ''H'', ''A'' \<mapsto> ''H''])"
  by (simp add: parse_eval)

lemma score_physical_example:
  "cvss31_base pw [''AV'' \<mapsto> ''P'', ''AC'' \<mapsto> ''L'', ''PR'' \<mapsto> ''N'', ''UI'' \<mapsto> ''N'',
           ''S'' \<mapsto> ''U'', ''C'' \<mapsto> ''H'', ''I'' \<mapsto> ''H'', ''A'' \<mapsto> ''H''] = Inr (lit (68 / 10))"
proof -
  let ?m = "[''AV'' \<mapsto> ''P'', ''AC'' \<mapsto> ''L'', ''PR'' \<mapsto> ''N'', ''UI'' \<mapsto> ''N'',
           ''S'' \<mapsto> ''U'', ''C'' \<mapsto> ''H'', ''I'' \<mapsto> ''H'', ''A'' \<mapsto> ''H'']"
  have lk: "lookup31 ?m = Inr (lit (20 / 100), lit (77 / 100), ''U'', lit (85 / 100), lit (85 / 100),
                               lit (56 / 100), lit (56 / 100), lit (56 / 100))"
    by (simp add: lookup_eval)
  have iss: "iss31 (lit (56 / 100)) (lit (56 / 100)) (lit (56 / 100))
      = Fin (514995624589071 / 562949953421312)"
    by (simp add: iss31_def float_eval)
  have im: "impact31 pw ''U'' (Fin (514995624589071 / 562949953421312))
      = Inr (Fin (826567977465459 / 140737488355328))"
    by (simp add: impact31_def float_eval)
  have ex: "exploitability31 (lit (20 / 100)) (lit (77 / 100)) (lit (85 / 100)) (lit (85 / 100))
      = Fin (4118984563073689 / 4503599627370496)"
    by (simp add: exploitability31_def float_eval)
  have ba: "base31 ''U'' (Fin (826567977465459 / 140737488355328))
      (Fin (4118984563073689 / 4503599627370496)) = Fin (3821144980246047 / 562949953421312)"
    by (simp add: base31_def fmin_def float_eval)
  have "roundup_1_dec (Fin (3821144980246047 / 562949953421312)) = Inr (lit (68 / 10))"
    by (simp add: roundup_eval float_eval)
  then show ?thesis using cvss31_base_steps [OF lk iss im ex ba] by simp
qed

lemma lit_68_98: "lit (68 / 10) \<noteq> lit (98 / 10)"
  by (simp add: float_eval)

text \<open>
  C7. In the map that \<open>parse_vector\<close> returns, a metric has the value of the last
  segment that sets it, and no value when no segment does: a later occurrence
  overwrites an earlier one and a repeated metric is not an error. Scoring goes on
  with this map: every parsed input of version 3.1 gets the score of \<open>cvss31_base\<close> on
  the map that \<open>parse_vector\<close> returns. So the vector with \<open>AV:N/AV:A\<close> is parsed to
  the map with \<open>AV = A\<close> and scored from it, and the vector
  \<open>CVSS:3.1/AV:N/AV:P/AC:L/PR:N/UI:N/S:U/C:H/I:H/A:H\<close> scores the \<open>6.8\<close> of \<open>AV = P\<close>,
  not the \<open>9.8\<close> of \<open>AV = N\<close>.
\<close>

theorem parse_vector_last_wins:
  "(parse_vector raw = Inr (ver, metrics) \<longrightarrow>
      metrics k = (if occurrences k raw = [] then None
                   else Some (seg_value (last (occurrences k raw))))
      \<and> (startswith ver ''3.1'' \<longrightarrow>
           compute_from_vector pw provider raw = cvss31_base pw metrics))
   \<and> parse_vector ''CVSS:3.1/AV:N/AV:A/AC:L/PR:N/UI:N/S:U/C:N/I:N/A:N''
       = Inr (''3.1'', [''AV'' \<mapsto> ''A'', ''AC'' \<mapsto> ''L'', ''PR'' \<mapsto> ''N'', ''UI'' \<mapsto> ''N'',
                        ''S'' \<mapsto> ''U'', ''C'' \<mapsto> ''N'', ''I'' \<mapsto> ''N'', ''A'' \<mapsto> ''N''])
   \<and> compute_from_vector pw provider ''CVSS:3.1/AV:N/AV:A/AC:L/PR:N/UI:N/S:U/C:N/I:N/A:N''
       = cvss31_base pw [''AV'' \<mapsto> ''A'', ''AC'' \<mapsto> ''L'', ''PR'' \<mapsto> ''N'', ''UI'' \<mapsto> ''N'',
                         ''S'' \<mapsto> ''U'', ''C'' \<mapsto> ''N'', ''I'' \<mapsto> ''N'', ''A'' \<mapsto> ''N'']
   \<and> compute_from_vector pw provider ''CVSS:3.1/AV:N/AV:P/AC:L/PR:N/UI:N/S:U/C:H/I:H/A:H''
       = Inr (lit (68 / 10))
   \<and> cvss31_base pw [''AV'' \<mapsto> ''P'', ''AC'' \<mapsto> ''L'', ''PR'' \<mapsto> ''N'', ''UI'' \<mapsto> ''N'',
                      ''S'' \<mapsto> ''U'', ''C'' \<mapsto> ''H'', ''I'' \<mapsto> ''H'', ''A'' \<mapsto> ''H''] = Inr (lit (68 / 10))
   \<and> cvss31_base pw [''AV'' \<mapsto> ''N'', ''AC'' \<mapsto> ''L'', ''PR'' \<mapsto> ''N'', ''UI'' \<mapsto> ''N'',
                      ''S'' \<mapsto> ''U'', ''C'' \<mapsto> ''H'', ''I'' \<mapsto> ''H'', ''A'' \<mapsto> ''H''] = Inr (lit (98 / 10))
   \<and> lit (68 / 10) \<noteq> lit (98 / 10)"
proof (intro conjI impI)
  assume p: "parse_vector raw = Inr (ver, metrics)"
  show "metrics k = (if occurrences k raw = [] then None
                     else Some (seg_value (last (occurrences k raw))))"
    using p
    by (auto simp: parse_vector_def Let_def fold_add_metric occurrences_def segments_def
        split: if_splits option.splits)
  assume "startswith ver ''3.1''"
  then show "compute_from_vector pw provider raw = cvss31_base pw metrics"
    using p by (simp add: compute_from_vector_def)
next
  show "parse_vector ''CVSS:3.1/AV:N/AV:A/AC:L/PR:N/UI:N/S:U/C:N/I:N/A:N''
       = Inr (''3.1'', [''AV'' \<mapsto> ''A'', ''AC'' \<mapsto> ''L'', ''PR'' \<mapsto> ''N'', ''UI'' \<mapsto> ''N'',
                        ''S'' \<mapsto> ''U'', ''C'' \<mapsto> ''N'', ''I'' \<mapsto> ''N'', ''A'' \<mapsto> ''N''])"
    by (rule parse_dup)
next
  show "compute_from_vector pw provider ''CVSS:3.1/AV:N/AV:A/AC:L/PR:N/UI:N/S:U/C:N/I:N/A:N''
       = cvss31_base pw [''AV'' \<mapsto> ''A'', ''AC'' \<mapsto> ''L'', ''PR'' \<mapsto> ''N'', ''UI'' \<mapsto> ''N'',
                         ''S'' \<mapsto> ''U'', ''C'' \<mapsto> ''N'', ''I'' \<mapsto> ''N'', ''A'' \<mapsto> ''N'']"
    by (simp add: compute_from_vector_def parse_dup startswith_def)
next
  show "compute_from_vector pw provider ''CVSS:3.1/AV:N/AV:P/AC:L/PR:N/UI:N/S:U/C:H/I:H/A:H''
       = Inr (lit (68 / 10))"
    using score_physical_example [of pw]
    by (simp add: compute_from_vector_def parse_dup_physical startswith_def)
next
  show "cvss31_base pw [''AV'' \<mapsto> ''P'', ''AC'' \<mapsto> ''L'', ''PR'' \<mapsto> ''N'', ''UI'' \<mapsto> ''N'',
                      ''S'' \<mapsto> ''U'', ''C'' \<mapsto> ''H'', ''I'' \<mapsto> ''H'', ''A'' \<mapsto> ''H''] = Inr (lit (68 / 10))"
    by (rule score_physical_example)
next
  show "cvss31_base pw [''AV'' \<mapsto> ''N'', ''AC'' \<mapsto> ''L'', ''PR'' \<mapsto> ''N'', ''UI'' \<mapsto> ''N'',
                      ''S'' \<mapsto> ''U'', ''C'' \<mapsto> ''H'', ''I'' \<mapsto> ''H'', ''A'' \<mapsto> ''H''] = Inr (lit (98 / 10))"
    by (rule score_high_example)
next
  show "lit (68 / 10) \<noteq> lit (98 / 10)" by (rule lit_68_98)
qed

theorem parse_vector_last_wins_witness:
  "parse_vector ''CVSS:3.1/AV:N/AV:A/AC:L/PR:N/UI:N/S:U/C:N/I:N/A:N'' =
     Inr (''3.1'', [''AV'' \<mapsto> ''A'', ''AC'' \<mapsto> ''L'', ''PR'' \<mapsto> ''N'', ''UI'' \<mapsto> ''N'', ''S'' \<mapsto> ''U'',
                    ''C'' \<mapsto> ''N'', ''I'' \<mapsto> ''N'', ''A'' \<mapsto> ''N''])
   \<and> startswith ''3.1'' ''3.1''
   \<and> occurrences ''AV'' ''CVSS:3.1/AV:N/AV:A/AC:L/PR:N/UI:N/S:U/C:N/I:N/A:N'' = [''AV:N'', ''AV:A'']
   \<and> [''AV'' \<mapsto> ''A'', ''AC'' \<mapsto> ''L'', ''PR'' \<mapsto> ''N'', ''UI'' \<mapsto> ''N'', ''S'' \<mapsto> ''U'',
       ''C'' \<mapsto> ''N'', ''I'' \<mapsto> ''N'', ''A'' \<mapsto> ''N''] ''AV'' = Some (seg_value ''AV:A'')
   \<and> seg_value ''AV:A'' = ''A''
   \<and> compute_from_vector pow_cr (Inl ''No module named cvss'')
        ''CVSS:3.1/AV:N/AV:A/AC:L/PR:N/UI:N/S:U/C:N/I:N/A:N''
      = cvss31_base pow_cr [''AV'' \<mapsto> ''A'', ''AC'' \<mapsto> ''L'', ''PR'' \<mapsto> ''N'', ''UI'' \<mapsto> ''N'',
                            ''S'' \<mapsto> ''U'', ''C'' \<mapsto> ''N'', ''I'' \<mapsto> ''N'', ''A'' \<mapsto> ''N'']"
proof -
  let ?raw = "''CVSS:3.1/AV:N/AV:A/AC:L/PR:N/UI:N/S:U/C:N/I:N/A:N''"
  let ?m = "[''AV'' \<mapsto> ''A'', ''AC'' \<mapsto> ''L'', ''PR'' \<mapsto> ''N'', ''UI'' \<mapsto> ''N'', ''S'' \<mapsto> ''U'',
       ''C'' \<mapsto> ''N'', ''I'' \<mapsto> ''N'', ''A'' \<mapsto> ''N'']"
  have o: "occurrences ''AV'' ?raw = [''AV:N'', ''AV:A'']"
    by (simp add: occurrences_def segments_def seg_key_def strip_def py_isspace_def)
  have v: "seg_value ''AV:A'' = ''A''" by (simp add: seg_value_def)
  have s: "startswith ''3.1'' ''3.1''" by (simp add: startswith_def)
  note t = parse_vector_last_wins [of ?raw "''3.1''" ?m "''AV''" pow_cr "Inl ''No module named cvss''"]
  have g: "?m ''AV'' = (if occurrences ''AV'' ?raw = [] then None
                        else Some (seg_value (last (occurrences ''AV'' ?raw))))"
    and c: "compute_from_vector pow_cr (Inl ''No module named cvss'') ?raw = cvss31_base pow_cr ?m"
    using t parse_dup s by blast+
  have a: "?m ''AV'' = Some (seg_value ''AV:A'')"
    using g by (simp only: o) simp
  show ?thesis using parse_dup s o a v c by (intro conjI)
qed

section \<open>Validation in the v3.1 engine\<close>

lemma first_failure_unroll:
  "first_failure m =
     (case culprit m ''AV'' of Some x \<Rightarrow> Some x | None \<Rightarrow>
      case culprit m ''AC'' of Some x \<Rightarrow> Some x | None \<Rightarrow>
      case culprit m ''S'' of Some x \<Rightarrow> Some x | None \<Rightarrow>
      case culprit m ''PR'' of Some x \<Rightarrow> Some x | None \<Rightarrow>
      case culprit m ''UI'' of Some x \<Rightarrow> Some x | None \<Rightarrow>
      case culprit m ''C'' of Some x \<Rightarrow> Some x | None \<Rightarrow>
      case culprit m ''I'' of Some x \<Rightarrow> Some x | None \<Rightarrow>
      culprit m ''A'')"
  by (simp add: first_failure_def order31_def List.map_filter_simps split: option.splits)

lemma weight_culprit:
  assumes "table31 m k = Some t"
  shows "weight t m k = (case culprit m k of Some x \<Rightarrow> Inl x | None \<Rightarrow> Inr (the (t (the (m k)))))"
  using assms by (auto simp: culprit_def weight_def getitem_def split: option.splits)

lemma scope_culprit:
  "getitem m ''S'' = (case culprit m ''S'' of Some x \<Rightarrow> Inl x | None \<Rightarrow> Inr (the (m ''S'')))"
  by (auto simp: culprit_def getitem_def table31_def split: option.splits)

lemma scope_table:
  assumes "culprit m ''S'' = None"
  shows "table31 m ''PR'' = Some (if the (m ''S'') = ''C'' then V31_PR_C else V31_PR_U)"
  using assms by (auto simp: culprit_def table31_def split: option.splits)

lemma lookup31_first_failure:
  assumes "first_failure m = Some x"
  shows "lookup31 m = Inl x"
proof -
  have t: "table31 m ''AV'' = Some V31_AV" "table31 m ''AC'' = Some V31_AC"
    "table31 m ''UI'' = Some V31_UI" "table31 m ''C'' = Some V31_CIA"
    "table31 m ''I'' = Some V31_CIA" "table31 m ''A'' = Some V31_CIA"
    by (simp_all add: table31_def)
  note w = t [THEN weight_culprit]
  show ?thesis
  proof (cases "culprit m ''S''")
    case (Some y)
    then show ?thesis using assms
      by (simp add: lookup31_def w scope_culprit first_failure_unroll split: option.splits)
  next
    case None
    note p = scope_table [OF None, THEN weight_culprit]
    show ?thesis using assms None
      by (simp add: lookup31_def w p scope_culprit first_failure_unroll split: option.splits)
  qed
qed

lemma first_failure_exists:
  "k \<in> set order31 \<Longrightarrow> culprit metrics k \<noteq> None \<Longrightarrow> \<exists>x. first_failure metrics = Some x"
  by (cases "List.map_filter (culprit metrics) order31")
     (auto simp: first_failure_def map_filter_def filter_empty_conv)

text \<open>
  C4, as the code has it. When one of the eight mandatory metrics is absent, or one of
  \<open>AV, AC, PR, UI, C, I, A\<close> has a value that its weight table lacks, \<open>cvss31_base\<close>
  fails with \<open>InvalidMetric\<close> and returns no score. The error carries the key of the
  first lookup that fails, in the order \<open>AV, AC, S, PR, UI, C, I, A\<close>: the
  abbreviation of the metric when the metric is absent, and the unrecognised value
  (not the abbreviation) when the table lacks the value.
\<close>

theorem cvss31_base_invalid:
  "\<exists>k \<in> set required31. culprit metrics k \<noteq> None \<Longrightarrow>
     \<exists>x. first_failure metrics = Some x \<and> cvss31_base pw metrics = Inl (InvalidMetric x)"
proof -
  assume "\<exists>k \<in> set required31. culprit metrics k \<noteq> None"
  then obtain k where "k \<in> set order31" "culprit metrics k \<noteq> None"
    by (auto simp: required31_def order31_def)
  then obtain x where x: "first_failure metrics = Some x"
    using first_failure_exists by blast
  then have "lookup31 metrics = Inl x" by (rule lookup31_first_failure)
  with x show ?thesis by (simp add: cvss31_base_def)
qed

theorem cvss31_base_invalid_witness:
  "culprit [''AV'' \<mapsto> ''X'', ''AC'' \<mapsto> ''L'', ''PR'' \<mapsto> ''N'', ''UI'' \<mapsto> ''N'', ''S'' \<mapsto> ''U'',
            ''C'' \<mapsto> ''H'', ''I'' \<mapsto> ''H'', ''A'' \<mapsto> ''H''] ''AV'' = Some ''X''
   \<and> cvss31_base pow_cr [''AV'' \<mapsto> ''X'', ''AC'' \<mapsto> ''L'', ''PR'' \<mapsto> ''N'', ''UI'' \<mapsto> ''N'',
            ''S'' \<mapsto> ''U'', ''C'' \<mapsto> ''H'', ''I'' \<mapsto> ''H'', ''A'' \<mapsto> ''H''] = Inl (InvalidMetric ''X'')
   \<and> culprit [''AV'' \<mapsto> ''N'', ''AC'' \<mapsto> ''L''] ''S'' = Some ''S''
   \<and> cvss31_base pow_cr [''AV'' \<mapsto> ''N'', ''AC'' \<mapsto> ''L''] = Inl (InvalidMetric ''S'')"
proof -
  let ?m = "[''AV'' \<mapsto> ''X'', ''AC'' \<mapsto> ''L'', ''PR'' \<mapsto> ''N'', ''UI'' \<mapsto> ''N'', ''S'' \<mapsto> ''U'',
            ''C'' \<mapsto> ''H'', ''I'' \<mapsto> ''H'', ''A'' \<mapsto> ''H'']"
  let ?n = "[''AV'' \<mapsto> ''N'', ''AC'' \<mapsto> ''L'']"
  have c1: "culprit ?m ''AV'' = Some ''X''"
    by (simp add: culprit_def table31_def table_defs)
  have f1: "first_failure ?m = Some ''X''"
    by (simp add: first_failure_unroll c1)
  have h1: "\<exists>k \<in> set required31. culprit ?m k \<noteq> None"
    using c1 by (simp add: required31_def)
  have c2: "culprit ?n ''S'' = Some ''S''"
    by (simp add: culprit_def)
  have f2: "first_failure ?n = Some ''S''"
    by (simp add: first_failure_unroll culprit_def table31_def table_defs)
  have h2: "\<exists>k \<in> set required31. culprit ?n k \<noteq> None"
    using c2 by (simp add: required31_def)
  show ?thesis
    using cvss31_base_invalid [OF h1, of pow_cr] cvss31_base_invalid [OF h2, of pow_cr] c1 c2 f1 f2
    by auto
qed

text \<open>
  The claim as the specification states it fails for an unrecognised value: with
  \<open>AV:X\<close> the error names \<open>X\<close>, the key of the \<^verbatim>\<open>KeyError\<close>, and not \<open>AV\<close>.
\<close>

theorem cvss31_base_invalid_counterexample:
  "cvss31_base pow_cr [''AV'' \<mapsto> ''X'', ''AC'' \<mapsto> ''L'', ''PR'' \<mapsto> ''N'', ''UI'' \<mapsto> ''N'',
       ''S'' \<mapsto> ''U'', ''C'' \<mapsto> ''H'', ''I'' \<mapsto> ''H'', ''A'' \<mapsto> ''H''] = Inl (InvalidMetric ''X'')
   \<and> cvss31_base pow_cr [''AV'' \<mapsto> ''X'', ''AC'' \<mapsto> ''L'', ''PR'' \<mapsto> ''N'', ''UI'' \<mapsto> ''N'',
       ''S'' \<mapsto> ''U'', ''C'' \<mapsto> ''H'', ''I'' \<mapsto> ''H'', ''A'' \<mapsto> ''H''] \<noteq> Inl (InvalidMetric ''AV'')"
  by (simp add: cvss31_base_def lookup_eval)

section \<open>Validation in the v4.0 path\<close>

text \<open>
  C3, as the code has it. The import of the provider comes first: when it fails,
  \<open>cvss40_base\<close> fails with \<open>ProviderUnavailable\<close>, whatever the map holds, complete
  or not. When the import succeeds and a mandatory v4.0 metric is absent,
  \<open>cvss40_base\<close> fails with \<open>MissingMetrics\<close> listing every absent metric in the order
  of \<open>required40\<close>, whatever the provider's scoring function is (it is not called).
\<close>

theorem cvss40_base_missing:
  "cvss40_base (Inl msg) metrics = Inl (ProviderUnavailable msg)
   \<and> ((\<exists>k \<in> set required40. metrics k = None) \<longrightarrow>
        cvss40_base (Inr CVSS4) metrics
          = Inl (MissingMetrics (filter (\<lambda>k. metrics k = None) required40)))"
  by (auto simp: cvss40_base_def Let_def filter_empty_conv)

theorem cvss40_base_missing_witness:
  "[''AV'' \<mapsto> ''N'', ''AC'' \<mapsto> ''L'', ''AT'' \<mapsto> ''N'', ''PR'' \<mapsto> ''N'', ''UI'' \<mapsto> ''N'', ''VC'' \<mapsto> ''H'',
    ''VI'' \<mapsto> ''H'', ''VA'' \<mapsto> ''H'', ''SC'' \<mapsto> ''N'', ''SI'' \<mapsto> ''N''] ''SA'' = None
   \<and> cvss40_base (Inr (\<lambda>v. Inr (lit 10)))
        [''AV'' \<mapsto> ''N'', ''AC'' \<mapsto> ''L'', ''AT'' \<mapsto> ''N'', ''PR'' \<mapsto> ''N'', ''UI'' \<mapsto> ''N'', ''VC'' \<mapsto> ''H'',
         ''VI'' \<mapsto> ''H'', ''VA'' \<mapsto> ''H'', ''SC'' \<mapsto> ''N'', ''SI'' \<mapsto> ''N'']
       = Inl (MissingMetrics [''SA''])
   \<and> cvss40_base (Inr (\<lambda>v. Inr (lit 10))) Map.empty
       = Inl (MissingMetrics [''AV'', ''AC'', ''AT'', ''PR'', ''UI'', ''VC'', ''VI'', ''VA'', ''SC'', ''SI'', ''SA''])
   \<and> cvss40_base (Inl ''No module named cvss'')
        [''AV'' \<mapsto> ''N'', ''AC'' \<mapsto> ''L'', ''AT'' \<mapsto> ''N'', ''PR'' \<mapsto> ''N'', ''UI'' \<mapsto> ''N'', ''VC'' \<mapsto> ''H'',
         ''VI'' \<mapsto> ''H'', ''VA'' \<mapsto> ''H'', ''SC'' \<mapsto> ''N'', ''SI'' \<mapsto> ''N'', ''SA'' \<mapsto> ''N'']
       = Inl (ProviderUnavailable ''No module named cvss'')"
proof -
  let ?m = "[''AV'' \<mapsto> ''N'', ''AC'' \<mapsto> ''L'', ''AT'' \<mapsto> ''N'', ''PR'' \<mapsto> ''N'', ''UI'' \<mapsto> ''N'',
    ''VC'' \<mapsto> ''H'', ''VI'' \<mapsto> ''H'', ''VA'' \<mapsto> ''H'', ''SC'' \<mapsto> ''N'', ''SI'' \<mapsto> ''N'']"
  let ?full = "[''AV'' \<mapsto> ''N'', ''AC'' \<mapsto> ''L'', ''AT'' \<mapsto> ''N'', ''PR'' \<mapsto> ''N'', ''UI'' \<mapsto> ''N'',
    ''VC'' \<mapsto> ''H'', ''VI'' \<mapsto> ''H'', ''VA'' \<mapsto> ''H'', ''SC'' \<mapsto> ''N'', ''SI'' \<mapsto> ''N'', ''SA'' \<mapsto> ''N'']"
  have h1: "\<exists>k \<in> set required40. ?m k = None" by (simp add: required40_def)
  have h2: "\<exists>k \<in> set required40. (Map.empty :: string \<rightharpoonup> string) k = None"
    by (auto simp: required40_def)
  have f1: "filter (\<lambda>k. ?m k = None) required40 = [''SA'']"
    by (simp add: required40_def)
  have f2: "filter (\<lambda>k. (Map.empty :: string \<rightharpoonup> string) k = None) required40 = required40"
    by simp
  have a: "?m ''SA'' = None" by simp
  have "cvss40_base (Inr (\<lambda>v. Inr (lit 10))) ?m
      = Inl (MissingMetrics (filter (\<lambda>k. ?m k = None) required40))"
    using cvss40_base_missing [of "''x''" ?m "\<lambda>v. Inr (lit 10)"] h1 by blast
  then have b: "cvss40_base (Inr (\<lambda>v. Inr (lit 10))) ?m = Inl (MissingMetrics [''SA''])"
    by (simp only: f1)
  have "cvss40_base (Inr (\<lambda>v. Inr (lit 10))) Map.empty
      = Inl (MissingMetrics (filter (\<lambda>k. (Map.empty :: string \<rightharpoonup> string) k = None) required40))"
    using cvss40_base_missing [of "''x''" Map.empty "\<lambda>v. Inr (lit 10)"] h2 by blast
  then have c: "cvss40_base (Inr (\<lambda>v. Inr (lit 10))) Map.empty = Inl (MissingMetrics required40)"
    by (simp only: f2)
  have d: "cvss40_base (Inl ''No module named cvss'') ?full
      = Inl (ProviderUnavailable ''No module named cvss'')"
    using cvss40_base_missing [of "''No module named cvss''" ?full "\<lambda>v. Inr (lit 10)"] by blast
  show ?thesis using a b c d unfolding required40_def by (intro conjI)
qed

text \<open>
  The claim as the specification states it fails when the provider is unavailable: a
  map without \<open>SA\<close> then gets \<open>ProviderUnavailable\<close>, not \<open>MissingMetrics\<close>.
\<close>

theorem cvss40_base_missing_counterexample:
  "cvss40_base (Inl ''No module named cvss'')
     [''AV'' \<mapsto> ''N'', ''AC'' \<mapsto> ''L'', ''AT'' \<mapsto> ''N'', ''PR'' \<mapsto> ''N'', ''UI'' \<mapsto> ''N'', ''VC'' \<mapsto> ''H'',
      ''VI'' \<mapsto> ''H'', ''VA'' \<mapsto> ''H'', ''SC'' \<mapsto> ''N'', ''SI'' \<mapsto> ''N'']
   = Inl (ProviderUnavailable ''No module named cvss'')
   \<and> cvss40_base (Inl ''No module named cvss'')
     [''AV'' \<mapsto> ''N'', ''AC'' \<mapsto> ''L'', ''AT'' \<mapsto> ''N'', ''PR'' \<mapsto> ''N'', ''UI'' \<mapsto> ''N'', ''VC'' \<mapsto> ''H'',
      ''VI'' \<mapsto> ''H'', ''VA'' \<mapsto> ''H'', ''SC'' \<mapsto> ''N'', ''SI'' \<mapsto> ''N'']
   \<noteq> Inl (MissingMetrics [''SA''])"
  by (simp add: cvss40_base_def)

section \<open>The v3.1 formula\<close>

text \<open>
  C1. For a metric map that gives each of the eight mandatory metrics a value of its
  table (\<open>U\<close> or \<open>C\<close> for the scope), \<open>cvss31_base\<close> computes the formula of the
  specification in binary64 arithmetic: the weight of \<open>PR\<close> from the table of the
  scope, \<open>iss = 1 - (1 - c)(1 - i)(1 - a)\<close>, the Impact \<open>6.42 * iss\<close> or
  \<open>7.52 * (iss - 0.029) - 3.25 * (iss - 0.02)\<^sup>1\<^sup>5\<close>, the Exploitability
  \<open>8.22 * av * ac * pr * ui\<close>, and as the value before rounding \<open>0.0\<close> when the
  Impact is at most 0 and otherwise \<open>min(impact + exploitability, 10.0)\<close> or
  \<open>min(1.08 * (impact + exploitability), 10.0)\<close>. An exception of \<^verbatim>\<open>pow\<close> is
  the result.
\<close>

theorem cvss31_base_formula:
  assumes "metrics ''AV'' = Some xav" and "V31_AV xav = Some av"
    and "metrics ''AC'' = Some xac" and "V31_AC xac = Some ac"
    and "metrics ''S'' = Some s" and "s = ''U'' \<or> s = ''C''"
    and "metrics ''PR'' = Some xpr" and "spec_pr_table (s = ''C'') xpr = Some pr"
    and "metrics ''UI'' = Some xui" and "V31_UI xui = Some ui"
    and "metrics ''C'' = Some xc" and "V31_CIA xc = Some c"
    and "metrics ''I'' = Some xi" and "V31_CIA xi = Some i"
    and "metrics ''A'' = Some xa" and "V31_CIA xa = Some a"
  shows "cvss31_base pw metrics =
    (case spec_impact pw (s = ''C'') (spec_iss c i a) of
       Inl e \<Rightarrow> Inl e
     | Inr impact \<Rightarrow>
         roundup_1_dec (if fle impact (Fin 0) then Fin 0
                        else spec_base (s = ''C'') impact (spec_exploitability av ac pr ui)))"
proof -
  have "weight (if s = ''C'' then V31_PR_C else V31_PR_U) metrics ''PR'' = Inr pr"
    using assms(7,8) by (simp add: weight_def getitem_def spec_pr_table_def)
  then have lk: "lookup31 metrics = Inr (av, ac, s, pr, ui, c, i, a)"
    using assms(1-5,9-16) by (simp add: lookup31_def weight_Some getitem_def)
  have im: "impact31 pw s (iss31 c i a) = spec_impact pw (s = ''C'') (spec_iss c i a)"
    using assms(6) by (auto simp: impact31_def spec_impact_def iss31_def spec_iss_def)
  have ba: "base31 s impact (exploitability31 av ac pr ui) =
      (if fle impact (Fin 0) then Fin 0
       else spec_base (s = ''C'') impact (spec_exploitability av ac pr ui))" for impact
    using assms(6)
    by (auto simp: base31_def spec_base_def exploitability31_def spec_exploitability_def lit_0)
  show ?thesis
    by (simp add: cvss31_base_def lk im ba cong: sum.case_cong)
qed

theorem cvss31_base_formula_witness:
  "[''AV'' \<mapsto> ''N'', ''AC'' \<mapsto> ''L'', ''PR'' \<mapsto> ''N'', ''UI'' \<mapsto> ''N'',
    ''S'' \<mapsto> ''C'', ''C'' \<mapsto> ''L'', ''I'' \<mapsto> ''N'', ''A'' \<mapsto> ''N''] ''PR'' = Some ''N''
   \<and> spec_pr_table (''C'' = ''C'') ''N'' = Some (lit (85 / 100))
   \<and> cvss31_base pow_cr [''AV'' \<mapsto> ''N'', ''AC'' \<mapsto> ''L'', ''PR'' \<mapsto> ''N'', ''UI'' \<mapsto> ''N'',
        ''S'' \<mapsto> ''C'', ''C'' \<mapsto> ''L'', ''I'' \<mapsto> ''N'', ''A'' \<mapsto> ''N''] =
      (case spec_impact pow_cr True (spec_iss (lit (22 / 100)) (lit 0) (lit 0)) of
         Inl e \<Rightarrow> Inl e
       | Inr impact \<Rightarrow>
           roundup_1_dec (if fle impact (Fin 0) then Fin 0
              else spec_base True impact
                (spec_exploitability (lit (85 / 100)) (lit (77 / 100)) (lit (85 / 100)) (lit (85 / 100)))))
   \<and> cvss31_base pow_cr [''AV'' \<mapsto> ''N'', ''AC'' \<mapsto> ''L'', ''PR'' \<mapsto> ''N'', ''UI'' \<mapsto> ''N'',
        ''S'' \<mapsto> ''C'', ''C'' \<mapsto> ''L'', ''I'' \<mapsto> ''N'', ''A'' \<mapsto> ''N''] = Inr (lit (58 / 10))"
proof -
  let ?m = "[''AV'' \<mapsto> ''N'', ''AC'' \<mapsto> ''L'', ''PR'' \<mapsto> ''N'', ''UI'' \<mapsto> ''N'',
    ''S'' \<mapsto> ''C'', ''C'' \<mapsto> ''L'', ''I'' \<mapsto> ''N'', ''A'' \<mapsto> ''N'']"
  have m: "?m ''AV'' = Some ''N''" "?m ''AC'' = Some ''L''" "?m ''S'' = Some ''C''"
    "?m ''PR'' = Some ''N''" "?m ''UI'' = Some ''N''" "?m ''C'' = Some ''L''"
    "?m ''I'' = Some ''N''" "?m ''A'' = Some ''N''"
    by simp_all
  have t: "V31_AV ''N'' = Some (lit (85 / 100))" "V31_AC ''L'' = Some (lit (77 / 100))"
    "spec_pr_table (''C'' = ''C'') ''N'' = Some (lit (85 / 100))"
    "V31_UI ''N'' = Some (lit (85 / 100))" "V31_CIA ''L'' = Some (lit (22 / 100))"
    "V31_CIA ''N'' = Some (lit 0)"
    by (simp_all add: table_defs spec_pr_table_def)
  have s: "''C'' = ''U'' \<or> ''C'' = ''C''" by simp
  note f = cvss31_base_formula [OF m(1) t(1) m(2) t(2) m(3) s m(4) t(3) m(5) t(4) m(6) t(5)
      m(7) t(6) m(8) t(6), of pow_cr]
  have e: "(''C'' = ''C'') = True" by simp
  show ?thesis
    using f [unfolded e] m(4) t(3) score_changed_example [OF pow_cr_accurate]
    by (intro conjI)
qed

section \<open>The rounding function\<close>

text \<open>
  C5. The score is \<open>roundup_1_dec\<close> of the value before rounding, and \<open>roundup_1_dec x\<close>
  is \<open>ceil(x * 10) / 10\<close> in binary64 arithmetic: the product is rounded, its ceiling
  is converted to a float and the quotient by 10 is rounded (for every finite \<open>x\<close> up
  to \<open>2\<^sup>1\<^sup>0\<^sup>0\<^sup>0\<close> in magnitude, where nothing overflows). So \<open>7.341\<close> gives \<open>7.4\<close>
  and \<open>7.3\<close> gives \<open>7.3\<close>.
\<close>

theorem roundup_1_dec_law:
  "(\<bar>x\<bar> \<le> 2 ^ 1000 \<longrightarrow>
      roundup_1_dec (Fin x) = Inr (Fin (rnd (rnd (of_int \<lceil>rnd (x * 10)\<rceil>) / 10))))
   \<and> roundup_1_dec (lit (7341 / 1000)) = Inr (lit (74 / 10))
   \<and> roundup_1_dec (lit (73 / 10)) = Inr (lit (73 / 10))
   \<and> (lookup31 metrics = Inr (av, ac, scope, pr, ui, c, i, a) \<longrightarrow>
      impact31 pw scope (iss31 c i a) = Inr impact \<longrightarrow>
      cvss31_base pw metrics = roundup_1_dec (base31 scope impact (exploitability31 av ac pr ui)))"
  using roundup_finite [of x] roundup_7341 roundup_73
  by (simp add: cvss31_base_def)

theorem roundup_1_dec_law_witness:
  "\<bar>8265231216131703 / 1125899906842624 :: rat\<bar> \<le> 2 ^ 1000
   \<and> roundup_1_dec (Fin (8265231216131703 / 1125899906842624)) =
       Inr (Fin (rnd (rnd (of_int \<lceil>rnd (8265231216131703 / 1125899906842624 * 10)\<rceil>) / 10)))
   \<and> rnd (rnd (of_int \<lceil>rnd (8265231216131703 / 1125899906842624 * 10)\<rceil>) / 10) =
       4165829655317709 / 562949953421312
   \<and> lit (74 / 10) = Fin (4165829655317709 / 562949953421312)
   \<and> lookup31 [''AV'' \<mapsto> ''N'', ''AC'' \<mapsto> ''L'', ''PR'' \<mapsto> ''N'', ''UI'' \<mapsto> ''N'',
           ''S'' \<mapsto> ''U'', ''C'' \<mapsto> ''H'', ''I'' \<mapsto> ''H'', ''A'' \<mapsto> ''H''] =
       Inr (lit (85 / 100), lit (77 / 100), ''U'', lit (85 / 100), lit (85 / 100),
            lit (56 / 100), lit (56 / 100), lit (56 / 100))
   \<and> impact31 pow_cr ''U'' (iss31 (lit (56 / 100)) (lit (56 / 100)) (lit (56 / 100))) =
       Inr (Fin (826567977465459 / 140737488355328))
   \<and> cvss31_base pow_cr [''AV'' \<mapsto> ''N'', ''AC'' \<mapsto> ''L'', ''PR'' \<mapsto> ''N'', ''UI'' \<mapsto> ''N'',
           ''S'' \<mapsto> ''U'', ''C'' \<mapsto> ''H'', ''I'' \<mapsto> ''H'', ''A'' \<mapsto> ''H''] =
       roundup_1_dec (base31 ''U'' (Fin (826567977465459 / 140737488355328))
         (exploitability31 (lit (85 / 100)) (lit (77 / 100)) (lit (85 / 100)) (lit (85 / 100))))"
proof -
  let ?x = "8265231216131703 / 1125899906842624 :: rat"
  let ?m = "[''AV'' \<mapsto> ''N'', ''AC'' \<mapsto> ''L'', ''PR'' \<mapsto> ''N'', ''UI'' \<mapsto> ''N'',
           ''S'' \<mapsto> ''U'', ''C'' \<mapsto> ''H'', ''I'' \<mapsto> ''H'', ''A'' \<mapsto> ''H'']"
  have h: "\<bar>?x\<bar> \<le> 2 ^ 1000" by simp
  have v: "rnd (rnd (of_int \<lceil>rnd (?x * 10)\<rceil>) / 10) = 4165829655317709 / 562949953421312"
    by (simp add: rnd_eval ceiling_rat_numeral)
  have l: "lit (74 / 10) = Fin (4165829655317709 / 562949953421312)"
    by (simp add: float_eval)
  have lk: "lookup31 ?m = Inr (lit (85 / 100), lit (77 / 100), ''U'', lit (85 / 100), lit (85 / 100),
                               lit (56 / 100), lit (56 / 100), lit (56 / 100))"
    by (simp add: lookup_eval)
  have im: "impact31 pow_cr ''U'' (iss31 (lit (56 / 100)) (lit (56 / 100)) (lit (56 / 100)))
      = Inr (Fin (826567977465459 / 140737488355328))"
    by (simp add: iss31_def impact31_def float_eval)
  note t = roundup_1_dec_law [of ?x ?m _ _ _ _ _ _ _ _ pow_cr]
  have a: "roundup_1_dec (Fin ?x) = Inr (Fin (rnd (rnd (of_int \<lceil>rnd (?x * 10)\<rceil>) / 10)))"
    using t h by blast
  have b: "cvss31_base pow_cr ?m =
       roundup_1_dec (base31 ''U'' (Fin (826567977465459 / 140737488355328))
         (exploitability31 (lit (85 / 100)) (lit (77 / 100)) (lit (85 / 100)) (lit (85 / 100))))"
    using t lk im by blast
  show ?thesis using h a v l lk im b by (intro conjI)
qed

section \<open>No impact, no score\<close>

text \<open>
  C6. When the metrics are valid and the Impact is at most 0, \<open>cvss31_base\<close> returns
  \<open>0.0\<close>, whatever the Exploitability. This is so for every valid map with
  \<open>C = I = A = N\<close>: with an unchanged scope for every \<^verbatim>\<open>pow\<close>, with another scope for
  every accurate \<^verbatim>\<open>pow\<close>. And the vector
  \<open>CVSS:3.1/AV:N/AC:L/PR:N/UI:N/S:U/C:N/I:N/A:N\<close> scores \<open>0.0\<close>.
\<close>

theorem cvss31_base_no_impact:
  "(lookup31 metrics = Inr (av, ac, scope, pr, ui, c, i, a) \<longrightarrow>
      impact31 pw scope (iss31 c i a) = Inr impact \<longrightarrow> fle impact (Fin 0) \<longrightarrow>
      cvss31_base pw metrics = Inr (Fin 0))
   \<and> (lookup31 metrics = Inr (av, ac, scope, pr, ui, c, i, a) \<longrightarrow>
      metrics ''C'' = Some ''N'' \<longrightarrow> metrics ''I'' = Some ''N'' \<longrightarrow> metrics ''A'' = Some ''N'' \<longrightarrow>
      scope = ''U'' \<or> pow_accurate pw \<longrightarrow>
      cvss31_base pw metrics = Inr (Fin 0))
   \<and> compute_from_vector pw provider ''CVSS:3.1/AV:N/AC:L/PR:N/UI:N/S:U/C:N/I:N/A:N'' = Inr (Fin 0)"
proof -
  have one: "cvss31_base pw m = Inr (Fin 0)"
    if "lookup31 m = Inr (av, ac, s, pr, ui, c, i, a)" "impact31 pw s (iss31 c i a) = Inr imp"
      "fle imp (Fin 0)" for m av ac s pr ui c i a imp
    using that by (simp add: cvss31_base_def base31_def lit_0 roundup_zero)
  have two: "cvss31_base pw m = Inr (Fin 0)"
    if lk: "lookup31 m = Inr (av, ac, s, pr, ui, c, i, a)"
      and n: "m ''C'' = Some ''N''" "m ''I'' = Some ''N''" "m ''A'' = Some ''N''"
      and sc: "s = ''U'' \<or> pow_accurate pw" for m av ac s pr ui c i a
  proof -
    have z: "weight V31_CIA m k = Inr (lit 0)" if "m k = Some ''N''" for k
      using that by (simp add: weight_def getitem_def V31_CIA_def)
    have "c = lit 0" "i = lit 0" "a = lit 0"
      using lookup31_Inr(6-8) [OF lk] n by (simp_all add: z)
    then have iss: "iss31 c i a = Fin 0" by (simp add: iss_none)
    obtain v where "impact31 pw s (Fin 0) = Inr (Fin v)" "v \<le> 0"
    proof (cases "s = ''U''")
      case True
      then show ?thesis using that [of 0] impact_none_unchanged by simp
    next
      case False
      then show ?thesis using that impact_none_changed sc by blast
    qed
    then show ?thesis using one [OF lk, of "Fin v"] iss by simp
  qed
  have p: "parse_vector ''CVSS:3.1/AV:N/AC:L/PR:N/UI:N/S:U/C:N/I:N/A:N'' =
     Inr (''3.1'', [''AV'' \<mapsto> ''N'', ''AC'' \<mapsto> ''L'', ''PR'' \<mapsto> ''N'', ''UI'' \<mapsto> ''N'',
                    ''S'' \<mapsto> ''U'', ''C'' \<mapsto> ''N'', ''I'' \<mapsto> ''N'', ''A'' \<mapsto> ''N''])"
    by (simp add: parse_eval)
  have lk: "lookup31 [''AV'' \<mapsto> ''N'', ''AC'' \<mapsto> ''L'', ''PR'' \<mapsto> ''N'', ''UI'' \<mapsto> ''N'',
                    ''S'' \<mapsto> ''U'', ''C'' \<mapsto> ''N'', ''I'' \<mapsto> ''N'', ''A'' \<mapsto> ''N''] =
      Inr (lit (85 / 100), lit (77 / 100), ''U'', lit (85 / 100), lit (85 / 100), lit 0, lit 0, lit 0)"
    by (simp add: lookup_eval)
  have three: "compute_from_vector pw provider ''CVSS:3.1/AV:N/AC:L/PR:N/UI:N/S:U/C:N/I:N/A:N''
      = Inr (Fin 0)"
    using two [OF lk] by (simp add: compute_from_vector_def p startswith_def)
  show ?thesis using one two three by blast
qed

theorem cvss31_base_no_impact_witness:
  "lookup31 [''AV'' \<mapsto> ''N'', ''AC'' \<mapsto> ''L'', ''PR'' \<mapsto> ''N'', ''UI'' \<mapsto> ''N'',
             ''S'' \<mapsto> ''U'', ''C'' \<mapsto> ''N'', ''I'' \<mapsto> ''N'', ''A'' \<mapsto> ''N''] =
      Inr (lit (85 / 100), lit (77 / 100), ''U'', lit (85 / 100), lit (85 / 100), lit 0, lit 0, lit 0)
   \<and> impact31 pow_cr ''U'' (iss31 (lit 0) (lit 0) (lit 0)) = Inr (Fin 0)
   \<and> fle (Fin 0) (Fin 0)
   \<and> cvss31_base pow_cr [''AV'' \<mapsto> ''N'', ''AC'' \<mapsto> ''L'', ''PR'' \<mapsto> ''N'', ''UI'' \<mapsto> ''N'',
             ''S'' \<mapsto> ''U'', ''C'' \<mapsto> ''N'', ''I'' \<mapsto> ''N'', ''A'' \<mapsto> ''N''] = Inr (Fin 0)
   \<and> lookup31 [''AV'' \<mapsto> ''P'', ''AC'' \<mapsto> ''H'', ''PR'' \<mapsto> ''H'', ''UI'' \<mapsto> ''R'',
             ''S'' \<mapsto> ''C'', ''C'' \<mapsto> ''N'', ''I'' \<mapsto> ''N'', ''A'' \<mapsto> ''N''] =
      Inr (lit (20 / 100), lit (44 / 100), ''C'', lit (50 / 100), lit (62 / 100), lit 0, lit 0, lit 0)
   \<and> pow_accurate pow_cr
   \<and> cvss31_base pow_cr [''AV'' \<mapsto> ''P'', ''AC'' \<mapsto> ''H'', ''PR'' \<mapsto> ''H'', ''UI'' \<mapsto> ''R'',
             ''S'' \<mapsto> ''C'', ''C'' \<mapsto> ''N'', ''I'' \<mapsto> ''N'', ''A'' \<mapsto> ''N''] = Inr (Fin 0)"
proof -
  let ?u = "[''AV'' \<mapsto> ''N'', ''AC'' \<mapsto> ''L'', ''PR'' \<mapsto> ''N'', ''UI'' \<mapsto> ''N'',
             ''S'' \<mapsto> ''U'', ''C'' \<mapsto> ''N'', ''I'' \<mapsto> ''N'', ''A'' \<mapsto> ''N'']"
  let ?c = "[''AV'' \<mapsto> ''P'', ''AC'' \<mapsto> ''H'', ''PR'' \<mapsto> ''H'', ''UI'' \<mapsto> ''R'',
             ''S'' \<mapsto> ''C'', ''C'' \<mapsto> ''N'', ''I'' \<mapsto> ''N'', ''A'' \<mapsto> ''N'']"
  have lu: "lookup31 ?u =
      Inr (lit (85 / 100), lit (77 / 100), ''U'', lit (85 / 100), lit (85 / 100), lit 0, lit 0, lit 0)"
    by (simp add: lookup_eval)
  have lc: "lookup31 ?c =
      Inr (lit (20 / 100), lit (44 / 100), ''C'', lit (50 / 100), lit (62 / 100), lit 0, lit 0, lit 0)"
    by (simp add: lookup_eval)
  have im: "impact31 pow_cr ''U'' (iss31 (lit 0) (lit 0) (lit 0)) = Inr (Fin 0)"
    by (simp add: iss_none impact_none_unchanged)
  have le: "fle (Fin 0) (Fin 0)" by simp
  have n: "?c ''C'' = Some ''N''" "?c ''I'' = Some ''N''" "?c ''A'' = Some ''N''" by simp_all
  have a: "cvss31_base pow_cr ?u = Inr (Fin 0)"
    using cvss31_base_no_impact [of ?u _ _ _ _ _ _ _ _ pow_cr "Fin 0"] lu im le by blast
  have b: "cvss31_base pow_cr ?c = Inr (Fin 0)"
    using cvss31_base_no_impact [of ?c _ _ _ _ _ _ _ _ pow_cr] lc n pow_cr_accurate by blast
  show ?thesis using lu im le a lc pow_cr_accurate b by (intro conjI)
qed

section \<open>The reference vector with a changed scope\<close>

text \<open>
  C2, as the code has it. With an accurate \<^verbatim>\<open>pow\<close>, the vector
  \<open>CVSS:3.1/AV:N/AC:L/PR:N/UI:N/S:C/C:L/I:N/A:N\<close> scores \<open>5.8\<close>: the value before
  rounding lies between 5.7492 and 5.7493.
\<close>

theorem compute_from_vector_reference_changed:
  "pow_accurate pw \<Longrightarrow>
     compute_from_vector pw provider ''CVSS:3.1/AV:N/AC:L/PR:N/UI:N/S:C/C:L/I:N/A:N''
       = Inr (lit (58 / 10))"
  by (rule compute_changed_example)

theorem compute_from_vector_reference_changed_witness:
  "pow_accurate pow_cr
   \<and> compute_from_vector pow_cr (Inl ''No module named cvss'')
        ''CVSS:3.1/AV:N/AC:L/PR:N/UI:N/S:C/C:L/I:N/A:N'' = Inr (lit (58 / 10))"
  using compute_from_vector_reference_changed [OF pow_cr_accurate] pow_cr_accurate
  by simp

text \<open>
  The score is not the \<open>5.3\<close> of the specification, which is the score of the same
  metrics with an unchanged scope.
\<close>

theorem compute_from_vector_reference_changed_counterexample:
  "compute_from_vector pow_cr (Inl ''No module named cvss'')
        ''CVSS:3.1/AV:N/AC:L/PR:N/UI:N/S:C/C:L/I:N/A:N'' \<noteq> Inr (lit (53 / 10))"
  using compute_changed_example [OF pow_cr_accurate, of "Inl ''No module named cvss''"] lit_58_53
  by simp

end
